theory Spec2Isabelle
  imports Main "HOL-Library.Word"
begin

section \<open>Ledger keys and entries\<close>

text \<open>
  Modelled from the spec: the XDR types \<open>LedgerKey\<close>, \<open>LedgerEntry\<close> and
  \<open>HotArchiveBucketEntry\<close>, whose generated headers are not among the sources. A key is a
  tagged union over the classic variants, contract data, contract code and TTL; an entry is a
  payload of the matching variant, a \<open>lastModifiedLedgerSeq\<close> counter and an extension slot.
  The key of an entry is read off its payload. Hashes, identifiers and opaque values are
  natural numbers, serialised buffers are lists of bytes.
\<close>

type_synonym uint32 = "32 word"
type_synonym uint64 = "64 word"
type_synonym Hash = nat
type_synonym CxxBuf = "8 word list"

datatype ContractDataDurability = TEMPORARY | PERSISTENT

datatype ClassicType = ACCOUNT | TRUSTLINE | OFFER | DATA | CLAIMABLE_BALANCE

datatype LedgerEntryType = CLASSIC ClassicType | CONTRACT_DATA | CONTRACT_CODE | TTL

datatype LedgerKey =
    ClassicKey ClassicType nat
  | ContractDataKey nat nat ContractDataDurability
  | ContractCodeKey Hash
  | TTLKey Hash

datatype LedgerEntryData =
    ClassicEntry ClassicType nat nat
  | ContractDataEntry nat nat ContractDataDurability nat
  | ContractCodeEntry Hash CxxBuf
  | TTLEntry Hash uint32

record LedgerEntry =
  lastModifiedLedgerSeq :: uint32
  data :: LedgerEntryData
  ext :: nat

fun keyType :: "LedgerKey \<Rightarrow> LedgerEntryType" where
  "keyType (ClassicKey t _) = CLASSIC t"
| "keyType (ContractDataKey _ _ _) = CONTRACT_DATA"
| "keyType (ContractCodeKey _) = CONTRACT_CODE"
| "keyType (TTLKey _) = TTL"

fun LedgerEntryDataKey :: "LedgerEntryData \<Rightarrow> LedgerKey" where
  "LedgerEntryDataKey (ClassicEntry t i _) = ClassicKey t i"
| "LedgerEntryDataKey (ContractDataEntry c k d _) = ContractDataKey c k d"
| "LedgerEntryDataKey (ContractCodeEntry h _) = ContractCodeKey h"
| "LedgerEntryDataKey (TTLEntry h _) = TTLKey h"

definition LedgerEntryKey :: "LedgerEntry \<Rightarrow> LedgerKey" where
  "LedgerEntryKey e = LedgerEntryDataKey (data e)"

text \<open>
  Modelled from the spec: the key classification of \<open>ledger/LedgerTypeUtils.h\<close>, which is
  not among the sources. A persistent contract key is contract code, or contract data flagged
  persistent; a temporary key is contract data flagged temporary; a contract (Soroban) key is
  contract data or contract code.
\<close>

fun isSorobanEntry :: "LedgerKey \<Rightarrow> bool" where
  "isSorobanEntry (ContractDataKey _ _ _) = True"
| "isSorobanEntry (ContractCodeKey _) = True"
| "isSorobanEntry _ = False"

fun isTemporaryEntry :: "LedgerKey \<Rightarrow> bool" where
  "isTemporaryEntry (ContractDataKey _ _ d) = (d = TEMPORARY)"
| "isTemporaryEntry _ = False"

fun isPersistentEntry :: "LedgerKey \<Rightarrow> bool" where
  "isPersistentEntry (ContractCodeKey _) = True"
| "isPersistentEntry (ContractDataKey _ _ d) = (d = PERSISTENT)"
| "isPersistentEntry _ = False"

definition isPersistentEntryData :: "LedgerEntryData \<Rightarrow> bool" where
  "isPersistentEntryData d = isPersistentEntry (LedgerEntryDataKey d)"

definition isContractCodeEntry :: "LedgerKey \<Rightarrow> bool" where
  "isContractCodeEntry lk = (keyType lk = CONTRACT_CODE)"

text \<open>
  Modelled from the spec: \<open>getTTLKey\<close> is a deterministic function of the key, the TTL key
  that carries the hash of the key. The hash function itself is a parameter \<open>sha\<close> of every
  definition that derives TTL keys; nothing below depends on which function it is.
\<close>

definition getTTLKey :: "(LedgerKey \<Rightarrow> Hash) \<Rightarrow> LedgerKey \<Rightarrow> LedgerKey" where
  "getTTLKey sha lk = TTLKey (sha lk)"

text \<open>
  Modelled from the spec: the overload of \<open>getTTLKey\<close> that takes a ledger entry gives the
  TTL key of the key of the entry.
\<close>

definition getTTLKeyOfEntry :: "(LedgerKey \<Rightarrow> Hash) \<Rightarrow> LedgerEntry \<Rightarrow> LedgerKey" where
  "getTTLKeyOfEntry sha e = getTTLKey sha (LedgerEntryKey e)"

text \<open>
  Modelled from the spec: \<open>is_live(ttl_entry, ledger_seq)\<close> holds iff
  \<open>live_until_ledger \<ge> ledger_seq\<close>. The source reads the TTL arm of the entry; on an entry of
  another variant that read does not succeed, and the model answers \<open>False\<close> there.
\<close>

fun isLiveData :: "LedgerEntryData \<Rightarrow> uint32 \<Rightarrow> bool" where
  "isLiveData (TTLEntry _ liveUntilLedgerSeq) ledgerSeq = (ledgerSeq \<le> liveUntilLedgerSeq)"
| "isLiveData _ _ = False"

definition isLive :: "LedgerEntry \<Rightarrow> uint32 \<Rightarrow> bool" where
  "isLive e ledgerSeq = isLiveData (data e) ledgerSeq"

text \<open>
  Modelled from the spec: the protocol version helpers of \<open>util/ProtocolVersion.h\<close> and the
  protocol constants. Persistent eviction (and with it the hot archive and autorestore) starts
  at protocol 23, as the comments of the sources say next to each use of the constant.
\<close>

definition protocolVersionIsBefore :: "uint32 \<Rightarrow> uint32 \<Rightarrow> bool" where
  "protocolVersionIsBefore v b = (v < b)"

definition protocolVersionStartsFrom :: "uint32 \<Rightarrow> uint32 \<Rightarrow> bool" where
  "protocolVersionStartsFrom v b = (b \<le> v)"

definition V_23 :: uint32 where "V_23 = 23"
definition V_24 :: uint32 where "V_24 = 24"

definition FIRST_PROTOCOL_SUPPORTING_PERSISTENT_EVICTION :: uint32 where
  "FIRST_PROTOCOL_SUPPORTING_PERSISTENT_EVICTION = V_23"

definition AUTO_RESTORE_PROTOCOL_VERSION :: uint32 where
  "AUTO_RESTORE_PROTOCOL_VERSION = V_23"

datatype Exception = ReleaseAssertFailure | RuntimeError | OutOfRange | XdrWrongUnionArm

section \<open>ArchivedStateConsistency\<close>

text \<open>
  The invariant returns a \<open>std::string\<close>, empty when it holds. The model keeps the structure
  of the message instead of its text: one constructor for each format string, carrying the
  values that are formatted into it. The empty list is the empty string.
\<close>

datatype Msg =
    BothLiveAndArchived LedgerKey
  | ArchivedEntryAlreadyPresent LedgerEntry
  | EvictedEntryDoesNotExist LedgerKey
  | TTLForPersistentDoesNotExist LedgerKey LedgerKey
  | EvictedTTLStillLive LedgerKey LedgerEntry
  | OutdatedEntryEvicted LedgerKey LedgerEntry LedgerEntry
  | EvictedTempKeyDoesNotExist LedgerKey
  | TTLForTempDoesNotExist LedgerKey LedgerKey
  | EvictedTempTTLStillLive LedgerKey LedgerEntry
  | TTLCountMismatch nat nat nat
  | RestoredFromLiveNotPersistent LedgerKey
  | RestoredFromLiveTTLMissing LedgerKey
  | RestoredFromArchiveNotPersistent LedgerKey
  | RestoredFromArchiveTTLMissing LedgerKey
  | RestoredFromArchiveStillLive LedgerKey
  | RestoredFromArchiveNotInArchive LedgerKey
  | RestoredFromArchiveIncorrectValue LedgerEntry LedgerEntry
  | RestoredFromLiveInArchive LedgerEntry LedgerEntry
  | RestoredFromLiveNotInLive LedgerKey
  | RestoredFromLiveIncorrectValue LedgerEntryData LedgerEntry
  | RestoredFromLiveNotExpired LedgerEntry LedgerEntry
  | Newline

datatype HotArchiveBucketEntry =
    HOT_ARCHIVE_ARCHIVED LedgerEntry
  | HOT_ARCHIVE_LIVE LedgerKey
  | HOT_ARCHIVE_METAENTRY

text \<open>
  The loop over the evicted entries of \<open>checkEvictionInvariants\<close>. \<open>Inr []\<close> means that the
  loop ran to its end; every \<open>return\<close> inside it gives a message.
\<close>

fun checkArchivedEntries ::
  "(LedgerKey \<Rightarrow> Hash) \<Rightarrow> (LedgerKey \<rightharpoonup> LedgerEntry) \<Rightarrow> (LedgerKey \<rightharpoonup> LedgerEntry) \<Rightarrow>
   uint32 \<Rightarrow> uint32 \<Rightarrow> LedgerEntry list \<Rightarrow> Exception + Msg list" where
  "checkArchivedEntries sha preloadedLiveEntries preloadedArchivedEntries ledgerSeq ledgerVers [] =
     Inr []"
| "checkArchivedEntries sha preloadedLiveEntries preloadedArchivedEntries ledgerSeq ledgerVers
     (archivedEntry # rest) =
     (if \<not> isPersistentEntryData (data archivedEntry) then Inl ReleaseAssertFailure
      else let lk = LedgerEntryKey archivedEntry in
        (case preloadedArchivedEntries lk of
           Some preexistingEntry \<Rightarrow> Inr [ArchivedEntryAlreadyPresent preexistingEntry]
         | None \<Rightarrow>
           (case preloadedLiveEntries lk of
              None \<Rightarrow> Inr [EvictedEntryDoesNotExist lk]
            | Some entry \<Rightarrow>
              (let ttlKey = getTTLKeyOfEntry sha archivedEntry in
                (case preloadedLiveEntries ttlKey of
                   None \<Rightarrow> Inr [TTLForPersistentDoesNotExist lk ttlKey]
                 | Some ttl \<Rightarrow>
                     if isLive ttl ledgerSeq then Inr [EvictedTTLStillLive lk ttl]
                     else if protocolVersionStartsFrom ledgerVers V_24 \<and> archivedEntry \<noteq> entry
                     then Inr [OutdatedEntryEvicted lk archivedEntry entry]
                     else checkArchivedEntries sha preloadedLiveEntries preloadedArchivedEntries
                            ledgerSeq ledgerVers rest)))))"

text \<open>
  The counting loop over \<open>deletedKeys\<close>: \<open>Inl\<close> is a \<open>return\<close> inside the loop, \<open>Inr\<close> the
  two counters \<open>(ttls, temps)\<close> at its end. The counters are \<open>size_t\<close> counts of elements of
  containers held in memory, modelled as \<open>nat\<close>.
\<close>

fun countDeletedKeys ::
  "(LedgerKey \<Rightarrow> Hash) \<Rightarrow> (LedgerKey \<rightharpoonup> LedgerEntry) \<Rightarrow> uint32 \<Rightarrow> LedgerKey list \<Rightarrow>
   nat \<Rightarrow> nat \<Rightarrow> Msg list + (nat \<times> nat)" where
  "countDeletedKeys sha preloadedLiveEntries ledgerSeq [] ttls temps = Inr (ttls, temps)"
| "countDeletedKeys sha preloadedLiveEntries ledgerSeq (lk # rest) ttls temps =
     (if isTemporaryEntry lk then
        (case preloadedLiveEntries lk of
           None \<Rightarrow> Inl [EvictedTempKeyDoesNotExist lk]
         | Some entry \<Rightarrow>
           (let ttlLk = getTTLKey sha lk in
             (case preloadedLiveEntries ttlLk of
                None \<Rightarrow> Inl [TTLForTempDoesNotExist lk ttlLk]
              | Some ttl \<Rightarrow>
                  if isLive ttl ledgerSeq then Inl [EvictedTempTTLStillLive lk ttl]
                  else countDeletedKeys sha preloadedLiveEntries ledgerSeq rest ttls (temps + 1))))
      else countDeletedKeys sha preloadedLiveEntries ledgerSeq rest (ttls + 1) temps)"

text \<open>
  \<open>deletedKeys\<close> is an unordered set in the source; the model takes its elements as a list
  without repetitions, in the order the iteration visits them.
\<close>

definition checkEvictionInvariants ::
  "(LedgerKey \<Rightarrow> Hash) \<Rightarrow> (LedgerKey \<rightharpoonup> LedgerEntry) \<Rightarrow> (LedgerKey \<rightharpoonup> LedgerEntry) \<Rightarrow>
   LedgerKey list \<Rightarrow> LedgerEntry list \<Rightarrow> uint32 \<Rightarrow> uint32 \<Rightarrow> Exception + Msg list" where
  "checkEvictionInvariants sha preloadedLiveEntries preloadedArchivedEntries deletedKeys
     archivedEntries ledgerSeq ledgerVers =
     (if deletedKeys = [] \<and> archivedEntries = [] then Inr []
      else
        (case checkArchivedEntries sha preloadedLiveEntries preloadedArchivedEntries ledgerSeq
                ledgerVers archivedEntries of
           Inl ex \<Rightarrow> Inl ex
         | Inr (m # ms) \<Rightarrow> Inr (m # ms)
         | Inr [] \<Rightarrow>
           (case countDeletedKeys sha preloadedLiveEntries ledgerSeq deletedKeys 0 0 of
              Inl msg \<Rightarrow> Inr msg
            | Inr (ttls, temps) \<Rightarrow>
                if temps + length archivedEntries \<noteq> ttls
                then Inr [TTLCountMismatch ttls temps (length archivedEntries)]
                else Inr [])))"

text \<open>
  The four loops of \<open>checkRestoreInvariants\<close>. The restore maps are unordered maps that the
  source both iterates and searches: association lists, searched with \<open>map_of\<close>.
\<close>

fun checkRestoredFromLivePairs ::
  "(LedgerKey \<Rightarrow> Hash) \<Rightarrow> (LedgerKey \<times> LedgerEntry) list \<Rightarrow> (LedgerKey \<times> LedgerEntry) list \<Rightarrow>
   Msg list" where
  "checkRestoredFromLivePairs sha restoredFromLiveState [] = []"
| "checkRestoredFromLivePairs sha restoredFromLiveState ((key, entry) # rest) =
     (if keyType key = TTL then checkRestoredFromLivePairs sha restoredFromLiveState rest
      else if \<not> isPersistentEntry key then [RestoredFromLiveNotPersistent key]
      else if map_of restoredFromLiveState (getTTLKey sha key) = None
      then [RestoredFromLiveTTLMissing (getTTLKey sha key)]
      else checkRestoredFromLivePairs sha restoredFromLiveState rest)"

fun checkRestoredFromArchivePairs ::
  "(LedgerKey \<Rightarrow> Hash) \<Rightarrow> (LedgerKey \<times> LedgerEntry) list \<Rightarrow> (LedgerKey \<times> LedgerEntry) list \<Rightarrow>
   Msg list" where
  "checkRestoredFromArchivePairs sha restoredFromArchive [] = []"
| "checkRestoredFromArchivePairs sha restoredFromArchive ((key, entry) # rest) =
     (if keyType key = TTL then checkRestoredFromArchivePairs sha restoredFromArchive rest
      else if \<not> isPersistentEntry key then [RestoredFromArchiveNotPersistent key]
      else if map_of restoredFromArchive (getTTLKey sha key) = None
      then [RestoredFromArchiveTTLMissing (getTTLKey sha key)]
      else checkRestoredFromArchivePairs sha restoredFromArchive rest)"

text \<open>
  The hot archive loop. Its last condition is written as the source parses:
  \<open>!(a.data == e.data) || !(a.ext == e.ext) && startsFrom(V_24)\<close>, where \<open>&&\<close> binds tighter
  than \<open>||\<close>.
\<close>

fun checkHotArchiveRestores ::
  "(LedgerKey \<rightharpoonup> LedgerEntry) \<Rightarrow> (LedgerKey \<rightharpoonup> LedgerEntry) \<Rightarrow> uint32 \<Rightarrow>
   (LedgerKey \<times> LedgerEntry) list \<Rightarrow> Msg list" where
  "checkHotArchiveRestores preloadedLiveEntries preloadedArchivedEntries ledgerVer [] = []"
| "checkHotArchiveRestores preloadedLiveEntries preloadedArchivedEntries ledgerVer
     ((key, entry) # rest) =
     (if preloadedLiveEntries key \<noteq> None then [RestoredFromArchiveStillLive key]
      else if keyType key = TTL
      then checkHotArchiveRestores preloadedLiveEntries preloadedArchivedEntries ledgerVer rest
      else
        (case preloadedArchivedEntries key of
           None \<Rightarrow> [RestoredFromArchiveNotInArchive key]
         | Some hotArchiveEntry \<Rightarrow>
             if \<not> (data hotArchiveEntry = data entry) \<or>
                (\<not> (ext hotArchiveEntry = ext entry) \<and> protocolVersionStartsFrom ledgerVer V_24)
             then [RestoredFromArchiveIncorrectValue entry hotArchiveEntry]
             else checkHotArchiveRestores preloadedLiveEntries preloadedArchivedEntries ledgerVer
                    rest))"

fun checkLiveRestores ::
  "(LedgerKey \<rightharpoonup> LedgerEntry) \<Rightarrow> (LedgerKey \<rightharpoonup> LedgerEntry) \<Rightarrow> uint32 \<Rightarrow>
   (LedgerKey \<times> LedgerEntry) list \<Rightarrow> Msg list" where
  "checkLiveRestores preloadedLiveEntries preloadedArchivedEntries ledgerSeq [] = []"
| "checkLiveRestores preloadedLiveEntries preloadedArchivedEntries ledgerSeq
     ((key, entry) # rest) =
     (case preloadedArchivedEntries key of
        Some hotArchiveEntry \<Rightarrow> [RestoredFromLiveInArchive entry hotArchiveEntry]
      | None \<Rightarrow>
        (case preloadedLiveEntries key of
           None \<Rightarrow> [RestoredFromLiveNotInLive key]
         | Some liveEntry \<Rightarrow>
             if liveEntry \<noteq> entry then [RestoredFromLiveIncorrectValue (data liveEntry) entry]
             else if keyType key = TTL \<and> isLive entry ledgerSeq
             then [RestoredFromLiveNotExpired entry entry]
             else checkLiveRestores preloadedLiveEntries preloadedArchivedEntries ledgerSeq rest))"

definition checkRestoreInvariants ::
  "(LedgerKey \<Rightarrow> Hash) \<Rightarrow> (LedgerKey \<rightharpoonup> LedgerEntry) \<Rightarrow> (LedgerKey \<rightharpoonup> LedgerEntry) \<Rightarrow>
   (LedgerKey \<times> LedgerEntry) list \<Rightarrow> (LedgerKey \<times> LedgerEntry) list \<Rightarrow> uint32 \<Rightarrow> uint32 \<Rightarrow>
   Msg list" where
  "checkRestoreInvariants sha preloadedLiveEntries preloadedArchivedEntries restoredFromArchive
     restoredFromLiveState ledgerSeq ledgerVer =
     (case checkRestoredFromLivePairs sha restoredFromLiveState restoredFromLiveState of
        m # ms \<Rightarrow> m # ms
      | [] \<Rightarrow>
        (case checkRestoredFromArchivePairs sha restoredFromArchive restoredFromArchive of
           m # ms \<Rightarrow> m # ms
         | [] \<Rightarrow>
           (case checkHotArchiveRestores preloadedLiveEntries preloadedArchivedEntries ledgerVer
                   restoredFromArchive of
              m # ms \<Rightarrow> m # ms
            | [] \<Rightarrow>
                checkLiveRestores preloadedLiveEntries preloadedArchivedEntries ledgerSeq
                  restoredFromLiveState)))"

text \<open>
  Modelled from the spec: the snapshots of the live state and of the hot archive
  (\<open>bucket/BucketSnapshot.h\<close> is not among the sources) are immutable views of the committed
  stores. A store holds entries and is searched by key: \<open>load\<close> returns the entry stored
  under a key, \<open>loadKeys\<close> the entries stored under the keys asked for.
\<close>

definition findEntry :: "LedgerEntry list \<Rightarrow> LedgerKey \<Rightarrow> LedgerEntry option" where
  "findEntry es k = find (\<lambda>e. LedgerEntryKey e = k) es"

fun hotArchiveBucketEntryKey :: "HotArchiveBucketEntry \<Rightarrow> LedgerKey option" where
  "hotArchiveBucketEntryKey (HOT_ARCHIVE_ARCHIVED e) = Some (LedgerEntryKey e)"
| "hotArchiveBucketEntryKey (HOT_ARCHIVE_LIVE k) = Some k"
| "hotArchiveBucketEntryKey HOT_ARCHIVE_METAENTRY = None"

type_synonym SearchableHotArchiveSnapshot = "HotArchiveBucketEntry list"

definition hotArchiveLoad ::
  "SearchableHotArchiveSnapshot \<Rightarrow> LedgerKey \<Rightarrow> HotArchiveBucketEntry option" where
  "hotArchiveLoad snap k = find (\<lambda>b. hotArchiveBucketEntryKey b = Some k) snap"

record SearchableSnapshot =
  snapLedgerVersion :: uint32
  snapLedgerSeq :: uint32
  snapEntries :: "LedgerEntry list"

definition loadKeys :: "('k \<Rightarrow> 'v option) \<Rightarrow> 'k list \<Rightarrow> 'v list" where
  "loadKeys ld ks = List.map_filter ld ks"

text \<open>
  The keys that \<open>checkOnLedgerCommit\<close> collects in \<open>allKeys\<close> before it preloads, one loop for
  each argument. A deleted key goes in, and with it the TTL key of the key when the key is
  persistent. An evicted entry goes in under its own key, a restored entry under the key of
  the restore map; when that key is persistent the TTL key goes in too, derived from the
  entry. \<open>allKeys\<close> is an ordered set in the source and a list here: the preloaded maps depend
  only on which keys are in it.
\<close>

definition collectKeys :: "(LedgerKey \<Rightarrow> Hash) \<Rightarrow> LedgerKey list \<Rightarrow> LedgerKey list" where
  "collectKeys sha ks =
     concat (map (\<lambda>k. if isPersistentEntry k then [k, getTTLKey sha k] else [k]) ks)"

definition collectEntryKeys ::
  "(LedgerKey \<Rightarrow> Hash) \<Rightarrow> (LedgerKey \<times> LedgerEntry) list \<Rightarrow> LedgerKey list" where
  "collectEntryKeys sha pairs =
     concat (map (\<lambda>(key, entry).
                    if isPersistentEntry key then [key, getTTLKeyOfEntry sha entry] else [key])
               pairs)"

definition allKeys ::
  "(LedgerKey \<Rightarrow> Hash) \<Rightarrow> LedgerEntry list \<Rightarrow> LedgerKey list \<Rightarrow> (LedgerKey \<times> LedgerEntry) list \<Rightarrow>
   (LedgerKey \<times> LedgerEntry) list \<Rightarrow> LedgerKey list" where
  "allKeys sha evictedFromLive deletedKeysFromLive restoredFromArchive restoredFromLiveState =
     collectEntryKeys sha (map (\<lambda>e. (LedgerEntryKey e, e)) evictedFromLive)
     @ collectKeys sha deletedKeysFromLive
     @ collectEntryKeys sha restoredFromArchive
     @ collectEntryKeys sha restoredFromLiveState"

fun preloadArchived ::
  "HotArchiveBucketEntry list \<Rightarrow> (LedgerKey \<rightharpoonup> LedgerEntry) \<Rightarrow> (LedgerKey \<rightharpoonup> LedgerEntry)" where
  "preloadArchived [] m = m"
| "preloadArchived (HOT_ARCHIVE_ARCHIVED e # rest) m = preloadArchived rest (m(LedgerEntryKey e \<mapsto> e))"
| "preloadArchived (_ # rest) m = preloadArchived rest m"

definition preloadLive ::
  "LedgerEntry list \<Rightarrow> (LedgerKey \<rightharpoonup> LedgerEntry)" where
  "preloadLive es = foldl (\<lambda>m e. m(LedgerEntryKey e \<mapsto> e)) Map.empty es"

definition checkOnLedgerCommit ::
  "(LedgerKey \<Rightarrow> Hash) \<Rightarrow> SearchableSnapshot \<Rightarrow> SearchableHotArchiveSnapshot \<Rightarrow>
   LedgerEntry list \<Rightarrow> LedgerKey list \<Rightarrow> (LedgerKey \<times> LedgerEntry) list \<Rightarrow>
   (LedgerKey \<times> LedgerEntry) list \<Rightarrow> Exception + Msg list" where
  "checkOnLedgerCommit sha lclLiveState lclHotArchiveState evictedFromLive deletedKeysFromLive
     restoredFromArchive restoredFromLiveState =
     (if protocolVersionIsBefore (snapLedgerVersion lclLiveState)
           FIRST_PROTOCOL_SUPPORTING_PERSISTENT_EVICTION
      then Inr []
      else
        (let ledgerSeq = snapLedgerSeq lclLiveState + 1;
             ledgerVers = snapLedgerVersion lclLiveState;
             keys = allKeys sha evictedFromLive deletedKeysFromLive restoredFromArchive
                      restoredFromLiveState;
             preloadedLiveEntries =
               preloadLive (loadKeys (findEntry (snapEntries lclLiveState)) keys);
             preloadedArchivedEntries =
               preloadArchived (loadKeys (hotArchiveLoad lclHotArchiveState) keys) Map.empty;
             deletedKeys = remdups deletedKeysFromLive
         in
           (case checkEvictionInvariants sha preloadedLiveEntries preloadedArchivedEntries
                   deletedKeys evictedFromLive ledgerSeq ledgerVers of
              Inl ex \<Rightarrow> Inl ex
            | Inr evictionRes \<Rightarrow>
               (let restoreRes =
                      checkRestoreInvariants sha preloadedLiveEntries preloadedArchivedEntries
                        restoredFromArchive restoredFromLiveState ledgerSeq ledgerVers
                in if evictionRes = [] \<and> restoreRes = [] then Inr []
                   else Inr (evictionRes @ [Newline] @ restoreRes)))))"

text \<open>
  The startup scan walks the two complete, key-ordered maps in step. The order on keys is
  the canonical order of the XDR encoding, a parameter \<open>lt\<close> here.
\<close>

fun startWalk ::
  "(LedgerKey \<Rightarrow> LedgerKey \<Rightarrow> bool) \<Rightarrow> (LedgerKey \<times> LedgerEntry) list \<Rightarrow>
   (LedgerKey \<times> LedgerEntry) list \<Rightarrow> Msg list" where
  "startWalk lt [] live = []"
| "startWalk lt archived [] = []"
| "startWalk lt ((ak, ae) # archived) ((lk, le) # live) =
     (if lt ak lk then startWalk lt archived ((lk, le) # live)
      else if lt lk ak then startWalk lt ((ak, ae) # archived) live
      else [BothLiveAndArchived ak])"

record Application =
  lastClosedLedgerVersion :: uint32
  completeHotArchiveState :: "(LedgerKey \<times> LedgerEntry) list"
  completeLedgerState :: "(LedgerKey \<times> LedgerEntry) list"

definition start :: "(LedgerKey \<Rightarrow> LedgerKey \<Rightarrow> bool) \<Rightarrow> Application \<Rightarrow> Msg list" where
  "start lt app =
     (let protocolVersion = lastClosedLedgerVersion app in
        if protocolVersionIsBefore protocolVersion FIRST_PROTOCOL_SUPPORTING_PERSISTENT_EVICTION
        then []
        else startWalk lt (completeHotArchiveState app) (completeLedgerState app))"

section \<open>The ledger transaction\<close>

text \<open>
  Modelled from the spec: the overlay \<open>AbstractLedgerTxn\<close> (\<open>ledger/LedgerTxn.h\<close> is not
  among the sources). It is a view of the live store and of the hot archive under the header
  of the ledger being applied. \<open>load\<close> returns the entry stored under a key; \<open>create\<close> and an
  update through a loaded entry store by the key of the entry; \<open>erase\<close> removes a key;
  \<open>restoreFromHotArchive\<close> and \<open>restoreFromLiveBucketList\<close> insert or replace the entry and
  write its TTL entry with the given \<open>liveUntilLedgerSeq\<close>, and the first also deletes the
  entry from the hot archive. Both return the TTL entry they wrote.
\<close>

record LedgerTxn =
  ledgerVersion :: uint32
  ledgerSeq :: uint32
  liveEntries :: "LedgerEntry list"
  hotArchiveEntries :: "LedgerEntry list"

definition loadWithoutRecord :: "LedgerTxn \<Rightarrow> LedgerKey \<Rightarrow> LedgerEntry option" where
  "loadWithoutRecord ltx k = findEntry (liveEntries ltx) k"

definition putEntry :: "LedgerEntry \<Rightarrow> LedgerEntry list \<Rightarrow> LedgerEntry list" where
  "putEntry e es = e # filter (\<lambda>x. LedgerEntryKey x \<noteq> LedgerEntryKey e) es"

definition eraseEntry :: "LedgerKey \<Rightarrow> LedgerEntry list \<Rightarrow> LedgerEntry list" where
  "eraseEntry k es = filter (\<lambda>x. LedgerEntryKey x \<noteq> k) es"

definition ltxPut :: "LedgerTxn \<Rightarrow> LedgerEntry \<Rightarrow> LedgerTxn" where
  "ltxPut ltx e = ltx\<lparr>liveEntries := putEntry e (liveEntries ltx)\<rparr>"

definition ltxErase :: "LedgerTxn \<Rightarrow> LedgerKey \<Rightarrow> LedgerTxn" where
  "ltxErase ltx k = ltx\<lparr>liveEntries := eraseEntry k (liveEntries ltx)\<rparr>"

definition restoredTTLEntry ::
  "(LedgerKey \<Rightarrow> Hash) \<Rightarrow> LedgerTxn \<Rightarrow> LedgerEntry \<Rightarrow> uint32 \<Rightarrow> LedgerEntry" where
  "restoredTTLEntry sha ltx e liveUntil =
     \<lparr>lastModifiedLedgerSeq = ledgerSeq ltx,
      data = TTLEntry (sha (LedgerEntryKey e)) liveUntil,
      ext = 0\<rparr>"

definition restoreFromHotArchive ::
  "(LedgerKey \<Rightarrow> Hash) \<Rightarrow> LedgerTxn \<Rightarrow> LedgerEntry \<Rightarrow> uint32 \<Rightarrow> LedgerTxn \<times> LedgerEntry" where
  "restoreFromHotArchive sha ltx e liveUntil =
     (let ttl = restoredTTLEntry sha ltx e liveUntil in
        (ltx\<lparr>liveEntries := putEntry ttl (putEntry e (liveEntries ltx)),
             hotArchiveEntries := eraseEntry (LedgerEntryKey e) (hotArchiveEntries ltx)\<rparr>,
         ttl))"

definition restoreFromLiveBucketList ::
  "(LedgerKey \<Rightarrow> Hash) \<Rightarrow> LedgerTxn \<Rightarrow> LedgerEntry \<Rightarrow> uint32 \<Rightarrow> LedgerTxn \<times> LedgerEntry" where
  "restoreFromLiveBucketList sha ltx e liveUntil =
     (let ttl = restoredTTLEntry sha ltx e liveUntil in
        (ltx\<lparr>liveEntries := putEntry ttl (putEntry e (liveEntries ltx))\<rparr>, ttl))"

section \<open>Resources, configuration and collaborators\<close>

record SorobanResources =
  footprintReadOnly :: "LedgerKey list"
  footprintReadWrite :: "LedgerKey list"
  instructions :: uint32
  diskReadBytes :: uint32
  writeBytes :: uint32

record SorobanNetworkConfig =
  minPersistentTTL :: uint32
  txMemoryLimit :: uint32
  txMaxContractEventsSizeBytes :: uint32

record CxxLedgerEntryRentChange =
  is_persistent :: bool
  old_size_bytes :: uint32
  new_size_bytes :: uint32
  old_live_until_ledger :: uint32
  new_live_until_ledger :: uint32

datatype SCVal = SCV_U64 uint64 | SCV_BYTES Hash | SCV_ADDRESS nat | SCV_KEY nat

datatype SCErrorType = SCE_BUDGET | SCE_VALUE | SCE_STORAGE

datatype SCErrorCode = SCEC_EXCEEDED_LIMIT | SCEC_INVALID_INPUT

datatype DiagnosticEvent =
    DiagnosticError SCErrorType SCErrorCode string "SCVal list"
  | HostDiagnosticEvent CxxBuf
  | MetricsEvent bool string uint64

definition makeU64SCVal :: "'a::len word \<Rightarrow> SCVal" where
  "makeU64SCVal v = SCV_U64 (ucast v)"

text \<open>
  The collaborators that the two operations call and that live outside the sources under
  study: the hash behind \<open>getTTLKey\<close>, the XDR sizes and serialisations, the entry size
  validation of \<open>TransactionUtils\<close>, the fee functions of the Rust bridge, the refundable fee
  tracker and the sandbox. They are parameters of the model, collected in one record.
  \<open>xdr_from_opaque\<close> on a buffer that the sandbox returned is a total decoding function. The
  sandbox returns \<open>None\<close> when the call throws.
\<close>

record InvokeHostFunctionOutput =
  success :: bool
  is_internal_error :: bool
  cpu_insns :: uint64
  mem_bytes :: uint64
  time_nsecs :: uint64
  modified_ledger_entries :: "CxxBuf list"
  contract_events :: "CxxBuf list"
  diagnostic_events :: "CxxBuf list"
  result_value :: CxxBuf
  rent_fee :: int

record External =
  sha256 :: "LedgerKey \<Rightarrow> Hash"
  xdr_size_key :: "LedgerKey \<Rightarrow> nat"
  toCxxBuf :: "LedgerEntry \<Rightarrow> CxxBuf"
  ttlToCxxBuf :: "LedgerEntryData \<Rightarrow> CxxBuf"
  xdr_from_opaque :: "CxxBuf \<Rightarrow> LedgerEntry"
  validateContractLedgerEntry :: "LedgerKey \<Rightarrow> nat \<Rightarrow> bool"
  contract_code_memory_size_for_rent :: "LedgerEntryData \<Rightarrow> uint32"
  compute_rent_fee :: "CxxLedgerEntryRentChange list \<Rightarrow> int"
  consumeRefundableSorobanResources :: "uint32 \<Rightarrow> int \<Rightarrow> bool"
  invoke_host_function :: "CxxBuf list \<Rightarrow> CxxBuf list \<Rightarrow> InvokeHostFunctionOutput option"

definition xdr_size :: "External \<Rightarrow> LedgerEntry \<Rightarrow> nat" where
  "xdr_size X e = length (toCxxBuf X e)"

section \<open>RestoreFootprintOpFrame\<close>

datatype RestoreFootprintResultCode =
    RESTORE_FOOTPRINT_SUCCESS
  | RESTORE_FOOTPRINT_MALFORMED
  | RESTORE_FOOTPRINT_RESOURCE_LIMIT_EXCEEDED
  | RESTORE_FOOTPRINT_INSUFFICIENT_REFUNDABLE_FEE

text \<open>
  The state that \<open>doApply\<close> changes: the ledger transaction, the two byte counters of
  \<open>RestoreFootprintMetrics\<close>, the rent changes collected so far and the diagnostic events.
\<close>

record RestoreState =
  rsLtx :: LedgerTxn
  rsLedgerReadByte :: uint32
  rsLedgerWriteByte :: uint32
  rustEntryRentChanges :: "CxxLedgerEntryRentChange list"
  rsDiagnosticEvents :: "DiagnosticEvent list"

text \<open>
  The body of the loop of \<open>doApply\<close> for a key that is not skipped: \<open>hotArchiveEntry\<close> is the
  entry found in the hot archive, or \<open>None\<close> when the key has an expired TTL in the live state.
  The result is an exception, or the state with the result code of a \<open>return false\<close>, or the
  state with \<open>None\<close> when the loop goes on.
\<close>

definition restoreKey ::
  "External \<Rightarrow> SorobanResources \<Rightarrow> uint32 \<Rightarrow> RestoreState \<Rightarrow> LedgerKey \<Rightarrow>
   HotArchiveBucketEntry option \<Rightarrow> Exception + (RestoreFootprintResultCode option \<times> RestoreState)" where
  "restoreKey X resources restoredLiveUntilLedger st lk hotArchiveEntry =
     (case (case hotArchiveEntry of
              Some (HOT_ARCHIVE_ARCHIVED e) \<Rightarrow> Inr e
            | Some _ \<Rightarrow> Inl XdrWrongUnionArm
            | None \<Rightarrow>
               (case loadWithoutRecord (rsLtx st) lk of
                  None \<Rightarrow> Inl ReleaseAssertFailure
                | Some e \<Rightarrow> Inr e)) of
        Inl ex \<Rightarrow> Inl ex
      | Inr entry \<Rightarrow>
        (let entrySize = (of_nat (xdr_size X entry) :: uint32);
             st1 = st\<lparr>rsLedgerReadByte := rsLedgerReadByte st + entrySize\<rparr>
         in
           if diskReadBytes resources < rsLedgerReadByte st1
           then Inr (Some RESTORE_FOOTPRINT_RESOURCE_LIMIT_EXCEEDED,
                  st1\<lparr>rsDiagnosticEvents := rsDiagnosticEvents st1 @
                    [DiagnosticError SCE_BUDGET SCEC_EXCEEDED_LIMIT
                       ''operation byte-read resources exceeds amount specified''
                       [makeU64SCVal (rsLedgerReadByte st1),
                        makeU64SCVal (diskReadBytes resources)]]\<rparr>)
           else
             (let st2 = st1\<lparr>rsLedgerWriteByte := rsLedgerWriteByte st1 + entrySize\<rparr> in
                if \<not> validateContractLedgerEntry X lk (unat entrySize)
                then Inr (Some RESTORE_FOOTPRINT_RESOURCE_LIMIT_EXCEEDED, st2)
                else if writeBytes resources < rsLedgerWriteByte st2
                then Inr (Some RESTORE_FOOTPRINT_RESOURCE_LIMIT_EXCEEDED,
                       st2\<lparr>rsDiagnosticEvents := rsDiagnosticEvents st2 @
                         [DiagnosticError SCE_BUDGET SCEC_EXCEEDED_LIMIT
                            ''operation byte-write resources exceeds amount specified''
                            [makeU64SCVal (rsLedgerWriteByte st2),
                             makeU64SCVal (writeBytes resources)]]\<rparr>)
                else
                  (let entrySizeForRent =
                         (if protocolVersionStartsFrom (ledgerVersion (rsLtx st2)) V_23 \<and>
                             isContractCodeEntry lk
                          then contract_code_memory_size_for_rent X (data entry)
                          else entrySize);
                       rustChange = \<lparr>is_persistent = True, old_size_bytes = 0,
                                     new_size_bytes = entrySizeForRent,
                                     old_live_until_ledger = 0,
                                     new_live_until_ledger = restoredLiveUntilLedger\<rparr>;
                       st3 = st2\<lparr>rustEntryRentChanges := rustEntryRentChanges st2 @ [rustChange]\<rparr>
                   in
                     (case hotArchiveEntry of
                        Some _ \<Rightarrow>
                          Inr (None, st3\<lparr>rsLtx := fst (restoreFromHotArchive (sha256 X) (rsLtx st3)
                                                      entry restoredLiveUntilLedger)\<rparr>)
                      | None \<Rightarrow>
                          Inr (None, st3\<lparr>rsLtx := fst (restoreFromLiveBucketList (sha256 X)
                                                      (rsLtx st3) entry restoredLiveUntilLedger)\<rparr>))))))"

text \<open>The loop of \<open>doApply\<close> over the read-write footprint, with its three ways to skip a key.\<close>

fun restoreLoop ::
  "External \<Rightarrow> SorobanResources \<Rightarrow> SearchableHotArchiveSnapshot \<Rightarrow> uint32 \<Rightarrow> RestoreState \<Rightarrow>
   LedgerKey list \<Rightarrow> Exception + (RestoreFootprintResultCode option \<times> RestoreState)" where
  "restoreLoop X resources hotArchive restoredLiveUntilLedger st [] = Inr (None, st)"
| "restoreLoop X resources hotArchive restoredLiveUntilLedger st (lk # rest) =
     (let ttlKey = getTTLKey (sha256 X) lk in
        (case loadWithoutRecord (rsLtx st) ttlKey of
           None \<Rightarrow>
             if protocolVersionStartsFrom (ledgerVersion (rsLtx st))
                  FIRST_PROTOCOL_SUPPORTING_PERSISTENT_EVICTION
             then
               (case hotArchiveLoad hotArchive lk of
                  None \<Rightarrow> restoreLoop X resources hotArchive restoredLiveUntilLedger st rest
                | Some hotArchiveEntry \<Rightarrow>
                   (case restoreKey X resources restoredLiveUntilLedger st lk
                           (Some hotArchiveEntry) of
                      Inl ex \<Rightarrow> Inl ex
                    | Inr (Some code, st') \<Rightarrow> Inr (Some code, st')
                    | Inr (None, st') \<Rightarrow>
                        restoreLoop X resources hotArchive restoredLiveUntilLedger st' rest))
             else restoreLoop X resources hotArchive restoredLiveUntilLedger st rest
         | Some constTTLLtxe \<Rightarrow>
             if isLive constTTLLtxe (ledgerSeq (rsLtx st))
             then restoreLoop X resources hotArchive restoredLiveUntilLedger st rest
             else
               (case restoreKey X resources restoredLiveUntilLedger st lk None of
                  Inl ex \<Rightarrow> Inl ex
                | Inr (Some code, st') \<Rightarrow> Inr (Some code, st')
                | Inr (None, st') \<Rightarrow>
                    restoreLoop X resources hotArchive restoredLiveUntilLedger st' rest)))"

text \<open>
  \<open>doApply\<close> returns the boolean of the source together with the result code it has set and
  the final state. \<open>refundableFeeTracker\<close> is the optional tracker, asserted to be present.
\<close>

definition doApply ::
  "External \<Rightarrow> bool \<Rightarrow> SorobanResources \<Rightarrow> SorobanNetworkConfig \<Rightarrow>
   SearchableHotArchiveSnapshot \<Rightarrow> LedgerTxn \<Rightarrow>
   Exception + (bool \<times> RestoreFootprintResultCode \<times> RestoreState)" where
  "doApply X refundableFeeTracker resources sorobanConfig hotArchive ltx =
     (if \<not> refundableFeeTracker then Inl ReleaseAssertFailure
      else
        (let restoredLiveUntilLedger = ledgerSeq ltx + minPersistentTTL sorobanConfig - 1;
             st0 = \<lparr>rsLtx = ltx, rsLedgerReadByte = 0, rsLedgerWriteByte = 0,
                    rustEntryRentChanges = [], rsDiagnosticEvents = []\<rparr>
         in
           (case restoreLoop X resources hotArchive restoredLiveUntilLedger st0
                   (footprintReadWrite resources) of
              Inl ex \<Rightarrow> Inl ex
            | Inr (Some code, st) \<Rightarrow> Inr (False, code, st)
            | Inr (None, st) \<Rightarrow>
               (let rentFee = compute_rent_fee X (rustEntryRentChanges st) in
                  if \<not> consumeRefundableSorobanResources X 0 rentFee
                  then Inr (False, RESTORE_FOOTPRINT_INSUFFICIENT_REFUNDABLE_FEE, st)
                  else Inr (True, RESTORE_FOOTPRINT_SUCCESS, st)))))"

text \<open>
  \<open>doCheckValidForSoroban\<close>: \<open>Inr ()\<close> is \<open>return true\<close>; \<open>Inl\<close> is \<open>return false\<close> with the
  result code and the diagnostic event of that branch.
\<close>

fun allPersistent :: "LedgerKey list \<Rightarrow> bool" where
  "allPersistent [] = True"
| "allPersistent (lk # rest) = (if \<not> isPersistentEntry lk then False else allPersistent rest)"

definition doCheckValidForSoroban ::
  "SorobanResources \<Rightarrow> (RestoreFootprintResultCode \<times> DiagnosticEvent) + unit" where
  "doCheckValidForSoroban resources =
     (if footprintReadOnly resources \<noteq> []
      then Inl (RESTORE_FOOTPRINT_MALFORMED,
             DiagnosticError SCE_STORAGE SCEC_INVALID_INPUT
               ''read-only footprint must be empty for RestoreFootprint operation'' [])
      else if \<not> allPersistent (footprintReadWrite resources)
      then Inl (RESTORE_FOOTPRINT_MALFORMED,
             DiagnosticError SCE_STORAGE SCEC_INVALID_INPUT
               ''only persistent Soroban entries can be restored'' [])
      else Inr ())"

section \<open>InvokeHostFunctionOpFrame\<close>

datatype InvokeHostFunctionResultCode =
    INVOKE_HOST_FUNCTION_SUCCESS
  | INVOKE_HOST_FUNCTION_MALFORMED
  | INVOKE_HOST_FUNCTION_TRAPPED
  | INVOKE_HOST_FUNCTION_RESOURCE_LIMIT_EXCEEDED
  | INVOKE_HOST_FUNCTION_ENTRY_ARCHIVED
  | INVOKE_HOST_FUNCTION_INSUFFICIENT_REFUNDABLE_FEE

text \<open>
  \<open>HostFunctionMetrics\<close>, without the three fields that only its destructor reads
  (\<open>mCpuInsnExclVm\<close>, \<open>mInvokeTimeNsecsExclVm\<close>, \<open>mDeclaredCpuInsn\<close>).
\<close>

record HostFunctionMetrics =
  mReadEntry :: uint32
  mWriteEntry :: uint32
  mLedgerReadByte :: uint32
  mLedgerWriteByte :: uint32
  mReadKeyByte :: uint32
  mWriteKeyByte :: uint32
  mReadDataByte :: uint32
  mWriteDataByte :: uint32
  mReadCodeByte :: uint32
  mWriteCodeByte :: uint32
  mEmitEvent :: uint32
  mEmitEventByte :: uint32
  mCpuInsn :: uint64
  mMemByte :: uint64
  mInvokeTimeNsecs :: uint64
  mMaxReadWriteKeyByte :: uint32
  mMaxReadWriteDataByte :: uint32
  mMaxReadWriteCodeByte :: uint32
  mMaxEmitEventByte :: uint32
  mSuccess :: bool

definition newHostFunctionMetrics :: HostFunctionMetrics where
  "newHostFunctionMetrics =
     \<lparr>mReadEntry = 0, mWriteEntry = 0, mLedgerReadByte = 0, mLedgerWriteByte = 0,
      mReadKeyByte = 0, mWriteKeyByte = 0, mReadDataByte = 0, mWriteDataByte = 0,
      mReadCodeByte = 0, mWriteCodeByte = 0, mEmitEvent = 0, mEmitEventByte = 0,
      mCpuInsn = 0, mMemByte = 0, mInvokeTimeNsecs = 0, mMaxReadWriteKeyByte = 0,
      mMaxReadWriteDataByte = 0, mMaxReadWriteCodeByte = 0, mMaxEmitEventByte = 0,
      mSuccess = False\<rparr>"

definition noteDiskReadEntry ::
  "HostFunctionMetrics \<Rightarrow> bool \<Rightarrow> uint32 \<Rightarrow> uint32 \<Rightarrow> HostFunctionMetrics" where
  "noteDiskReadEntry m isCodeEntry keySize entrySize =
     (let m1 = m\<lparr>mReadEntry := mReadEntry m + 1,
                 mReadKeyByte := mReadKeyByte m + keySize,
                 mMaxReadWriteKeyByte := max (mMaxReadWriteKeyByte m) keySize,
                 mLedgerReadByte := mLedgerReadByte m + entrySize\<rparr>
      in if isCodeEntry
         then m1\<lparr>mReadCodeByte := mReadCodeByte m1 + entrySize,
                 mMaxReadWriteCodeByte := max (mMaxReadWriteCodeByte m1) entrySize\<rparr>
         else m1\<lparr>mReadDataByte := mReadDataByte m1 + entrySize,
                 mMaxReadWriteDataByte := max (mMaxReadWriteDataByte m1) entrySize\<rparr>)"

definition noteWriteEntry ::
  "HostFunctionMetrics \<Rightarrow> bool \<Rightarrow> uint32 \<Rightarrow> uint32 \<Rightarrow> HostFunctionMetrics" where
  "noteWriteEntry m isCodeEntry keySize entrySize =
     (let m1 = m\<lparr>mWriteEntry := mWriteEntry m + 1,
                 mMaxReadWriteKeyByte := max (mMaxReadWriteKeyByte m) keySize,
                 mLedgerWriteByte := mLedgerWriteByte m + entrySize\<rparr>
      in if isCodeEntry
         then m1\<lparr>mWriteCodeByte := mWriteCodeByte m1 + entrySize,
                 mMaxReadWriteCodeByte := max (mMaxReadWriteCodeByte m1) entrySize\<rparr>
         else m1\<lparr>mWriteDataByte := mWriteDataByte m1 + entrySize,
                 mMaxReadWriteDataByte := max (mMaxReadWriteDataByte m1) entrySize\<rparr>)"

definition metricsEvent :: "bool \<Rightarrow> string \<Rightarrow> 'a::len word \<Rightarrow> DiagnosticEvent" where
  "metricsEvent ok topic v = MetricsEvent ok topic (ucast v)"

definition maybePopulateDiagnosticEvents ::
  "bool \<Rightarrow> InvokeHostFunctionOutput \<Rightarrow> HostFunctionMetrics \<Rightarrow> DiagnosticEvent list \<Rightarrow>
   DiagnosticEvent list" where
  "maybePopulateDiagnosticEvents enabled output m buffer =
     (if enabled then
        buffer @ map HostDiagnosticEvent (diagnostic_events output) @
        [metricsEvent (mSuccess m) ''read_entry'' (mReadEntry m),
         metricsEvent (mSuccess m) ''write_entry'' (mWriteEntry m),
         metricsEvent (mSuccess m) ''ledger_read_byte'' (mLedgerReadByte m),
         metricsEvent (mSuccess m) ''ledger_write_byte'' (mLedgerWriteByte m),
         metricsEvent (mSuccess m) ''read_key_byte'' (mReadKeyByte m),
         metricsEvent (mSuccess m) ''write_key_byte'' (mWriteKeyByte m),
         metricsEvent (mSuccess m) ''read_data_byte'' (mReadDataByte m),
         metricsEvent (mSuccess m) ''write_data_byte'' (mWriteDataByte m),
         metricsEvent (mSuccess m) ''read_code_byte'' (mReadCodeByte m),
         metricsEvent (mSuccess m) ''write_code_byte'' (mWriteCodeByte m),
         metricsEvent (mSuccess m) ''emit_event'' (mEmitEvent m),
         metricsEvent (mSuccess m) ''emit_event_byte'' (mEmitEventByte m),
         metricsEvent (mSuccess m) ''cpu_insn'' (mCpuInsn m),
         metricsEvent (mSuccess m) ''mem_byte'' (mMemByte m),
         metricsEvent (mSuccess m) ''invoke_time_nsecs'' (mInvokeTimeNsecs m),
         metricsEvent (mSuccess m) ''max_rw_key_byte'' (mMaxReadWriteKeyByte m),
         metricsEvent (mSuccess m) ''max_rw_data_byte'' (mMaxReadWriteDataByte m),
         metricsEvent (mSuccess m) ''max_rw_code_byte'' (mMaxReadWriteCodeByte m),
         metricsEvent (mSuccess m) ''max_emit_event_byte'' (mMaxEmitEventByte m)]
      else buffer)"

text \<open>
  The state of \<open>ApplyHelper\<close>. \<open>mRes\<close> is the result code of the operation, \<open>None\<close> until the
  helper sets one. \<open>opMetaEvents\<close> and \<open>opMetaReturnValue\<close> are what the helper hands to the
  operation meta on success. The last four fields never change after construction.
\<close>

record ApplyHelper =
  mLtx :: LedgerTxn
  mRes :: "InvokeHostFunctionResultCode option"
  mLedgerEntryCxxBufs :: "CxxBuf list"
  mTtlEntryCxxBufs :: "CxxBuf list"
  mMetrics :: HostFunctionMetrics
  mDiagnosticEvents :: "DiagnosticEvent list"
  mAutorestoredEntries :: "bool list"
  opMetaEvents :: "CxxBuf list"
  opMetaReturnValue :: "CxxBuf option"
  mResources :: SorobanResources
  mSorobanConfig :: SorobanNetworkConfig
  mHotArchive :: SearchableHotArchiveSnapshot
  ENABLE_SOROBAN_DIAGNOSTIC_EVENTS :: bool

fun markAutorestored :: "bool list \<Rightarrow> nat list \<Rightarrow> Exception + bool list" where
  "markAutorestored v [] = Inr v"
| "markAutorestored v (index # rest) =
     (if index < length v then markAutorestored (v[index := True]) rest else Inl OutOfRange)"

text \<open>
  The constructor. \<open>resourceExt\<close> is \<open>Some archivedSorobanEntries\<close> when the resource
  extension has version 1, and \<open>None\<close> otherwise.
\<close>

definition newApplyHelper ::
  "LedgerTxn \<Rightarrow> SorobanResources \<Rightarrow> SorobanNetworkConfig \<Rightarrow> SearchableHotArchiveSnapshot \<Rightarrow>
   bool \<Rightarrow> nat list option \<Rightarrow> Exception + ApplyHelper" where
  "newApplyHelper ltx resources sorobanConfig hotArchive diagnostics resourceExt =
     (let h = \<lparr>mLtx = ltx, mRes = None, mLedgerEntryCxxBufs = [], mTtlEntryCxxBufs = [],
               mMetrics = newHostFunctionMetrics, mDiagnosticEvents = [],
               mAutorestoredEntries = [], opMetaEvents = [], opMetaReturnValue = None,
               mResources = resources, mSorobanConfig = sorobanConfig,
               mHotArchive = hotArchive, ENABLE_SOROBAN_DIAGNOSTIC_EVENTS = diagnostics\<rparr>
      in
        (case resourceExt of
           None \<Rightarrow> Inr h
         | Some archivedEntries \<Rightarrow>
             if archivedEntries \<noteq> [] then
               (case markAutorestored
                       (replicate (length (footprintReadWrite resources)) False)
                       archivedEntries of
                  Inl ex \<Rightarrow> Inl ex
                | Inr v \<Rightarrow> Inr (h\<lparr>mAutorestoredEntries := v\<rparr>))
             else Inr h))"

definition checkIfReadWriteEntryIsMarkedForAutorestore ::
  "ApplyHelper \<Rightarrow> LedgerKey \<Rightarrow> nat \<Rightarrow> Exception + bool" where
  "checkIfReadWriteEntryIsMarkedForAutorestore st lk index =
     (if mAutorestoredEntries st = [] then Inr False
      else if index < length (mAutorestoredEntries st)
      then Inr (mAutorestoredEntries st ! index)
      else Inl OutOfRange)"

definition setCode :: "ApplyHelper \<Rightarrow> InvokeHostFunctionResultCode \<Rightarrow> ApplyHelper" where
  "setCode st c = st\<lparr>mRes := Some c\<rparr>"

definition pushError ::
  "ApplyHelper \<Rightarrow> SCErrorType \<Rightarrow> SCErrorCode \<Rightarrow> string \<Rightarrow> SCVal list \<Rightarrow> ApplyHelper" where
  "pushError st ty code msg args =
     st\<lparr>mDiagnosticEvents := mDiagnosticEvents st @ [DiagnosticError ty code msg args]\<rparr>"

definition meterDiskReadResource ::
  "ApplyHelper \<Rightarrow> LedgerKey \<Rightarrow> uint32 \<Rightarrow> uint32 \<Rightarrow> bool \<times> ApplyHelper" where
  "meterDiskReadResource st lk keySize entrySize =
     (let st1 = st\<lparr>mMetrics := noteDiskReadEntry (mMetrics st) (isContractCodeEntry lk)
                                  keySize entrySize\<rparr>
      in if diskReadBytes (mResources st1) < mLedgerReadByte (mMetrics st1)
         then (False,
               setCode
                 (pushError st1 SCE_BUDGET SCEC_EXCEEDED_LIMIT
                    ''operation byte-read resources exceeds amount specified''
                    [makeU64SCVal (mLedgerReadByte (mMetrics st1)),
                     makeU64SCVal (diskReadBytes (mResources st1))])
                 INVOKE_HOST_FUNCTION_RESOURCE_LIMIT_EXCEEDED)
         else (True, st1))"

text \<open>
  The failing branch of \<open>handleArchivedEntry\<close>: the diagnostic event for the key, then the
  result code.
\<close>

definition archivedEntryDiagnostic :: "ApplyHelper \<Rightarrow> LedgerKey \<Rightarrow> ApplyHelper" where
  "archivedEntryDiagnostic st lk =
     (case lk of
        ContractCodeKey h \<Rightarrow>
          pushError st SCE_VALUE SCEC_INVALID_INPUT
            ''trying to access an archived contract code entry'' [SCV_BYTES h]
      | ContractDataKey c k d \<Rightarrow>
          pushError st SCE_VALUE SCEC_INVALID_INPUT
            ''trying to access an archived contract data entry'' [SCV_ADDRESS c, SCV_KEY k]
      | _ \<Rightarrow> st)"

definition handleArchivedEntry ::
  "External \<Rightarrow> ApplyHelper \<Rightarrow> LedgerKey \<Rightarrow> LedgerEntry \<Rightarrow> bool \<Rightarrow> uint32 \<Rightarrow> bool \<Rightarrow> nat \<Rightarrow>
   Exception + (bool \<times> ApplyHelper)" where
  "handleArchivedEntry X st lk le isReadOnly restoredLiveUntilLedger isHotArchiveEntry index =
     (case (if \<not> isReadOnly \<and>
               protocolVersionStartsFrom (ledgerVersion (mLtx st))
                 FIRST_PROTOCOL_SUPPORTING_PERSISTENT_EVICTION
            then checkIfReadWriteEntryIsMarkedForAutorestore st lk index
            else Inr False) of
        Inl ex \<Rightarrow> Inl ex
      | Inr True \<Rightarrow>
         (let leBuf = toCxxBuf X le;
              entrySize = (of_nat (length leBuf) :: uint32);
              keySize = (of_nat (xdr_size_key X lk) :: uint32)
          in
            if \<not> validateContractLedgerEntry X lk (unat entrySize)
            then Inr (False, setCode st INVOKE_HOST_FUNCTION_RESOURCE_LIMIT_EXCEEDED)
            else
              (case meterDiskReadResource st lk keySize entrySize of
                 (False, st1) \<Rightarrow> Inr (False, st1)
               | (True, st1) \<Rightarrow>
                  (let restored =
                         (if isHotArchiveEntry
                          then restoreFromHotArchive (sha256 X) (mLtx st1) le
                                 restoredLiveUntilLedger
                          else restoreFromLiveBucketList (sha256 X) (mLtx st1) le
                                 restoredLiveUntilLedger);
                       ttlEntry = snd restored
                   in Inr (True,
                        st1\<lparr>mLtx := fst restored,
                            mLedgerEntryCxxBufs := mLedgerEntryCxxBufs st1 @ [leBuf],
                            mTtlEntryCxxBufs := mTtlEntryCxxBufs st1 @
                                                  [ttlToCxxBuf X (data ttlEntry)]\<rparr>))))
      | Inr False \<Rightarrow>
          Inr (False,
            setCode (archivedEntryDiagnostic st lk) INVOKE_HOST_FUNCTION_ENTRY_ARCHIVED))"

text \<open>
  The part of the loop body of \<open>addReads\<close> that follows the archival checks: load the entry
  and fill the buffers, validate the size, meter the read. \<open>(True, st)\<close> means that the loop
  goes on, \<open>(False, st)\<close> that \<open>addReads\<close> returns false.
\<close>

definition addReadsEntry ::
  "External \<Rightarrow> ApplyHelper \<Rightarrow> LedgerKey \<Rightarrow> uint32 \<Rightarrow> LedgerEntryData option \<Rightarrow> bool \<Rightarrow> uint32 \<Rightarrow>
   Exception + (bool \<times> ApplyHelper)" where
  "addReadsEntry X st lk keySize ttlEntry sorobanEntryLive ledgerVersion' =
     (case (if \<not> isSorobanEntry lk \<or> sorobanEntryLive then
              (case loadWithoutRecord (mLtx st) lk of
                 Some ltxe \<Rightarrow>
                   (let leBuf = toCxxBuf X ltxe;
                        ttlBuf = (case ttlEntry of Some t \<Rightarrow> ttlToCxxBuf X t | None \<Rightarrow> [])
                    in Inr ((of_nat (length leBuf) :: uint32),
                            st\<lparr>mLedgerEntryCxxBufs := mLedgerEntryCxxBufs st @ [leBuf],
                               mTtlEntryCxxBufs := mTtlEntryCxxBufs st @ [ttlBuf]\<rparr>))
               | None \<Rightarrow>
                   if isSorobanEntry lk \<and> ttlEntry \<noteq> None then Inl ReleaseAssertFailure
                   else Inr (0, st))
            else Inr (0, st)) of
        Inl ex \<Rightarrow> Inl ex
      | Inr (entrySize, st1) \<Rightarrow>
          if \<not> validateContractLedgerEntry X lk (unat entrySize)
          then Inr (False, setCode st1 INVOKE_HOST_FUNCTION_RESOURCE_LIMIT_EXCEEDED)
          else if \<not> isSorobanEntry lk \<or>
                  protocolVersionIsBefore ledgerVersion' AUTO_RESTORE_PROTOCOL_VERSION
          then Inr (meterDiskReadResource st1 lk keySize entrySize)
          else if isSorobanEntry lk
          then Inr (True, st1\<lparr>mMetrics := (mMetrics st1)\<lparr>mReadEntry := mReadEntry (mMetrics st1) + 1\<rparr>\<rparr>)
          else Inr (True, st1))"

text \<open>
  The whole loop body of \<open>addReads\<close> for the key \<open>lk\<close> at index \<open>i\<close>: the archival checks for
  a contract key, then \<open>addReadsEntry\<close> unless the key was handled as archived.
\<close>

definition addReadsKey ::
  "External \<Rightarrow> bool \<Rightarrow> uint32 \<Rightarrow> uint32 \<Rightarrow> uint32 \<Rightarrow> ApplyHelper \<Rightarrow> LedgerKey \<Rightarrow> nat \<Rightarrow>
   Exception + (bool \<times> ApplyHelper)" where
  "addReadsKey X isReadOnly ledgerSeq' ledgerVersion' restoredLiveUntilLedger st lk i =
     (let keySize = (of_nat (xdr_size_key X lk) :: uint32) in
        if isSorobanEntry lk then
          (case loadWithoutRecord (mLtx st) (getTTLKey (sha256 X) lk) of
             Some ttlEntryOp \<Rightarrow>
               if \<not> isLive ttlEntryOp ledgerSeq' then
                 (if \<not> isTemporaryEntry lk then
                    (case loadWithoutRecord (mLtx st) lk of
                       None \<Rightarrow> Inl RuntimeError
                     | Some leLtxe \<Rightarrow>
                         handleArchivedEntry X st lk leLtxe isReadOnly restoredLiveUntilLedger
                           False i)
                  else addReadsEntry X st lk keySize None False ledgerVersion')
               else addReadsEntry X st lk keySize (Some (data ttlEntryOp)) True ledgerVersion'
           | None \<Rightarrow>
               if isPersistentEntry lk \<and>
                  protocolVersionStartsFrom (ledgerVersion (mLtx st))
                    FIRST_PROTOCOL_SUPPORTING_PERSISTENT_EVICTION
               then
                 (case hotArchiveLoad (mHotArchive st) lk of
                    Some (HOT_ARCHIVE_ARCHIVED archivedEntry) \<Rightarrow>
                      handleArchivedEntry X st lk archivedEntry isReadOnly
                        restoredLiveUntilLedger True i
                  | Some _ \<Rightarrow> Inl ReleaseAssertFailure
                  | None \<Rightarrow> addReadsEntry X st lk keySize None False ledgerVersion')
               else addReadsEntry X st lk keySize None False ledgerVersion')
        else addReadsEntry X st lk keySize None False ledgerVersion')"

fun addReadsLoop ::
  "External \<Rightarrow> bool \<Rightarrow> uint32 \<Rightarrow> uint32 \<Rightarrow> uint32 \<Rightarrow> ApplyHelper \<Rightarrow> LedgerKey list \<Rightarrow> nat \<Rightarrow>
   Exception + (bool \<times> ApplyHelper)" where
  "addReadsLoop X isReadOnly ledgerSeq' ledgerVersion' restoredLiveUntilLedger st [] i =
     Inr (True, st)"
| "addReadsLoop X isReadOnly ledgerSeq' ledgerVersion' restoredLiveUntilLedger st (lk # rest) i =
     (case addReadsKey X isReadOnly ledgerSeq' ledgerVersion' restoredLiveUntilLedger st lk i of
        Inl ex \<Rightarrow> Inl ex
      | Inr (False, st') \<Rightarrow> Inr (False, st')
      | Inr (True, st') \<Rightarrow>
          addReadsLoop X isReadOnly ledgerSeq' ledgerVersion' restoredLiveUntilLedger st' rest
            (i + 1))"

definition addReads ::
  "External \<Rightarrow> ApplyHelper \<Rightarrow> LedgerKey list \<Rightarrow> bool \<Rightarrow> Exception + (bool \<times> ApplyHelper)" where
  "addReads X st keys isReadOnly =
     (let ledgerSeq' = ledgerSeq (mLtx st);
          ledgerVersion' = ledgerVersion (mLtx st);
          restoredLiveUntilLedger =
            ledgerSeq' + minPersistentTTL (mSorobanConfig st) - 1
      in addReadsLoop X isReadOnly ledgerSeq' ledgerVersion' restoredLiveUntilLedger st keys 0)"

text \<open>
  The call of the sandbox inside the \<open>try\<close> block. When the call throws, \<open>out\<close> keeps its
  initial value with \<open>success = false\<close>, and the handler sets \<open>is_internal_error\<close>.
\<close>

definition initialOutput :: InvokeHostFunctionOutput where
  "initialOutput =
     \<lparr>success = False, is_internal_error = False, cpu_insns = 0, mem_bytes = 0,
      time_nsecs = 0, modified_ledger_entries = [], contract_events = [],
      diagnostic_events = [], result_value = [], rent_fee = 0\<rparr>"

definition invokeHost :: "External \<Rightarrow> ApplyHelper \<Rightarrow> InvokeHostFunctionOutput \<times> ApplyHelper" where
  "invokeHost X st =
     (case invoke_host_function X (mLedgerEntryCxxBufs st) (mTtlEntryCxxBufs st) of
        None \<Rightarrow> (initialOutput\<lparr>is_internal_error := True\<rparr>, st)
      | Some out \<Rightarrow>
         (let st1 = st\<lparr>mMetrics := (mMetrics st)\<lparr>mCpuInsn := cpu_insns out,
                                                  mMemByte := mem_bytes out,
                                                  mInvokeTimeNsecs := time_nsecs out\<rparr>\<rparr>
          in (out,
              if \<not> success out
              then st1\<lparr>mDiagnosticEvents :=
                         maybePopulateDiagnosticEvents (ENABLE_SOROBAN_DIAGNOSTIC_EVENTS st1) out
                           (mMetrics st1) (mDiagnosticEvents st1)\<rparr>
              else st1)))"

text \<open>The branch \<open>if (!out.success)\<close> of \<open>apply\<close>: either it throws or it returns false.\<close>

definition failedInvocation ::
  "ApplyHelper \<Rightarrow> InvokeHostFunctionOutput \<Rightarrow> Exception + ApplyHelper" where
  "failedInvocation st out =
     (if is_internal_error out then Inl RuntimeError
      else if unat (instructions (mResources st)) < unat (cpu_insns out)
      then Inr (setCode
                  (pushError st SCE_BUDGET SCEC_EXCEEDED_LIMIT
                     ''operation instructions exceeds amount specified''
                     [makeU64SCVal (cpu_insns out), makeU64SCVal (instructions (mResources st))])
                  INVOKE_HOST_FUNCTION_RESOURCE_LIMIT_EXCEEDED)
      else if unat (txMemoryLimit (mSorobanConfig st)) < unat (mem_bytes out)
      then Inr (setCode
                  (pushError st SCE_BUDGET SCEC_EXCEEDED_LIMIT
                     ''operation memory usage exceeds network config limit''
                     [makeU64SCVal (mem_bytes out),
                      makeU64SCVal (txMemoryLimit (mSorobanConfig st))])
                  INVOKE_HOST_FUNCTION_RESOURCE_LIMIT_EXCEEDED)
      else Inr (setCode st INVOKE_HOST_FUNCTION_TRAPPED))"

text \<open>
  Create or update every entry returned. The two key sets of the source are lists here, used
  for membership only.
\<close>

fun applyModifiedEntries ::
  "External \<Rightarrow> ApplyHelper \<Rightarrow> CxxBuf list \<Rightarrow> LedgerKey list \<Rightarrow> LedgerKey list \<Rightarrow>
   bool \<times> ApplyHelper \<times> LedgerKey list \<times> LedgerKey list" where
  "applyModifiedEntries X st [] createdAndModifiedKeys createdKeys =
     (True, st, createdAndModifiedKeys, createdKeys)"
| "applyModifiedEntries X st (buf # rest) createdAndModifiedKeys createdKeys =
     (let le = xdr_from_opaque X buf;
          lk = LedgerEntryKey le
      in
        if \<not> validateContractLedgerEntry X lk (length buf)
        then (False, setCode st INVOKE_HOST_FUNCTION_RESOURCE_LIMIT_EXCEEDED,
              createdAndModifiedKeys, createdKeys)
        else
          (let keySize = (of_nat (xdr_size_key X lk) :: uint32);
               entrySize = (of_nat (length buf) :: uint32);
               st1 = (if keyType lk \<noteq> TTL
                      then st\<lparr>mMetrics := noteWriteEntry (mMetrics st) (isContractCodeEntry lk)
                                             keySize entrySize\<rparr>
                      else st)
           in
             if keyType lk \<noteq> TTL \<and>
                writeBytes (mResources st1) < mLedgerWriteByte (mMetrics st1)
             then (False,
                   setCode
                     (pushError st1 SCE_BUDGET SCEC_EXCEEDED_LIMIT
                        ''operation byte-write resources exceeds amount specified''
                        [makeU64SCVal (mLedgerWriteByte (mMetrics st1)),
                         makeU64SCVal (writeBytes (mResources st1))])
                     INVOKE_HOST_FUNCTION_RESOURCE_LIMIT_EXCEEDED,
                   lk # createdAndModifiedKeys, createdKeys)
             else
               (case loadWithoutRecord (mLtx st1) lk of
                  Some ltxe \<Rightarrow>
                    applyModifiedEntries X (st1\<lparr>mLtx := ltxPut (mLtx st1) le\<rparr>) rest
                      (lk # createdAndModifiedKeys) createdKeys
                | None \<Rightarrow>
                    applyModifiedEntries X (st1\<lparr>mLtx := ltxPut (mLtx st1) le\<rparr>) rest
                      (lk # createdAndModifiedKeys) (lk # createdKeys))))"

fun checkCreatedKeys :: "(LedgerKey \<Rightarrow> Hash) \<Rightarrow> LedgerKey list \<Rightarrow> LedgerKey list \<Rightarrow> bool" where
  "checkCreatedKeys sha createdKeys [] = True"
| "checkCreatedKeys sha createdKeys (key # rest) =
     (if isSorobanEntry key
      then (if getTTLKey sha key \<in> set createdKeys then checkCreatedKeys sha createdKeys rest
            else False)
      else (if keyType key = TTL then checkCreatedKeys sha createdKeys rest else False))"

text \<open>Erase every key of the read-write footprint that the sandbox did not return.\<close>

fun eraseUntouched ::
  "(LedgerKey \<Rightarrow> Hash) \<Rightarrow> LedgerTxn \<Rightarrow> LedgerKey list \<Rightarrow> LedgerKey list \<Rightarrow> Exception + LedgerTxn" where
  "eraseUntouched sha ltx createdAndModifiedKeys [] = Inr ltx"
| "eraseUntouched sha ltx createdAndModifiedKeys (lk # rest) =
     (if lk \<notin> set createdAndModifiedKeys then
        (case loadWithoutRecord ltx lk of
           Some ltxe \<Rightarrow>
             if \<not> isSorobanEntry lk then Inl ReleaseAssertFailure
             else
               (let ltx1 = ltxErase ltx lk; ttlLK = getTTLKey sha lk in
                  (case loadWithoutRecord ltx1 ttlLK of
                     None \<Rightarrow> Inl ReleaseAssertFailure
                   | Some ttlLtxe \<Rightarrow>
                       eraseUntouched sha (ltxErase ltx1 ttlLK) createdAndModifiedKeys rest))
         | None \<Rightarrow> eraseUntouched sha ltx createdAndModifiedKeys rest)
      else eraseUntouched sha ltx createdAndModifiedKeys rest)"

text \<open>
  The loop over the contract events: count the event, add its size to \<open>mEmitEventByte\<close>,
  compare with the limit, keep the event. The third argument collects \<open>success.events\<close>.
\<close>

fun ingestEvents ::
  "ApplyHelper \<Rightarrow> CxxBuf list \<Rightarrow> CxxBuf list \<Rightarrow> bool \<times> ApplyHelper \<times> CxxBuf list" where
  "ingestEvents st [] events = (True, st, events)"
| "ingestEvents st (buf # rest) events =
     (let eventSize = (of_nat (length buf) :: uint32);
          m = mMetrics st;
          st1 = st\<lparr>mMetrics := m\<lparr>mEmitEvent := mEmitEvent m + 1,
                                  mEmitEventByte := mEmitEventByte m + eventSize,
                                  mMaxEmitEventByte := max (mMaxEmitEventByte m) eventSize\<rparr>\<rparr>
      in
        if txMaxContractEventsSizeBytes (mSorobanConfig st1) < mEmitEventByte (mMetrics st1)
        then (False,
              setCode
                (pushError st1 SCE_BUDGET SCEC_EXCEEDED_LIMIT
                   ''total events size exceeds network config maximum''
                   [makeU64SCVal (mEmitEventByte (mMetrics st1)),
                    makeU64SCVal (txMaxContractEventsSizeBytes (mSorobanConfig st1))])
                INVOKE_HOST_FUNCTION_RESOURCE_LIMIT_EXCEEDED,
              events)
        else ingestEvents st1 rest (events @ [buf]))"

text \<open>
  What \<open>apply\<close> does after the loop over the events: the diagnostic events, the size of the
  return value, the refundable fee, and the success result.
\<close>

definition finishApply ::
  "External \<Rightarrow> ApplyHelper \<Rightarrow> InvokeHostFunctionOutput \<Rightarrow> CxxBuf list \<Rightarrow> bool \<times> ApplyHelper" where
  "finishApply X st out events =
     (let st1 = st\<lparr>mDiagnosticEvents :=
                     maybePopulateDiagnosticEvents (ENABLE_SOROBAN_DIAGNOSTIC_EVENTS st) out
                       (mMetrics st) (mDiagnosticEvents st)\<rparr>;
          st2 = st1\<lparr>mMetrics := (mMetrics st1)
                      \<lparr>mEmitEventByte := mEmitEventByte (mMetrics st1) +
                                          (of_nat (length (result_value out)) :: uint32)\<rparr>\<rparr>
      in
        if txMaxContractEventsSizeBytes (mSorobanConfig st2) < mEmitEventByte (mMetrics st2)
        then (False,
              setCode
                (pushError st2 SCE_BUDGET SCEC_EXCEEDED_LIMIT
                   ''return value pushes events size above network config maximum''
                   [makeU64SCVal (mEmitEventByte (mMetrics st2)),
                    makeU64SCVal (txMaxContractEventsSizeBytes (mSorobanConfig st2))])
                INVOKE_HOST_FUNCTION_RESOURCE_LIMIT_EXCEEDED)
        else if \<not> consumeRefundableSorobanResources X (mEmitEventByte (mMetrics st2))
                    (rent_fee out)
        then (False, setCode st2 INVOKE_HOST_FUNCTION_INSUFFICIENT_REFUNDABLE_FEE)
        else (True,
              (setCode st2 INVOKE_HOST_FUNCTION_SUCCESS)
                \<lparr>opMetaEvents := events,
                 opMetaReturnValue := Some (result_value out),
                 mMetrics := (mMetrics st2)\<lparr>mSuccess := True\<rparr>\<rparr>))"

text \<open>
  \<open>apply\<close> in two parts. \<open>applyUntilEvents\<close> runs from the footprint reads to the erasure of
  the untouched keys; it ends with an exception, with \<open>(False, st, out)\<close> when \<open>apply\<close> has
  returned false, or with \<open>(True, st, out)\<close> when the events come next.
\<close>

definition applyUntilEvents ::
  "External \<Rightarrow> ApplyHelper \<Rightarrow> Exception + (bool \<times> ApplyHelper \<times> InvokeHostFunctionOutput)" where
  "applyUntilEvents X st =
     (case addReads X st (footprintReadOnly (mResources st)) True of
        Inl ex \<Rightarrow> Inl ex
      | Inr (False, st1) \<Rightarrow> Inr (False, st1, initialOutput)
      | Inr (True, st1) \<Rightarrow>
        (case addReads X st1 (footprintReadWrite (mResources st1)) False of
           Inl ex \<Rightarrow> Inl ex
         | Inr (False, st2) \<Rightarrow> Inr (False, st2, initialOutput)
         | Inr (True, st2) \<Rightarrow>
           (case invokeHost X st2 of
              (out, st3) \<Rightarrow>
                if \<not> success out then
                  (case failedInvocation st3 out of
                     Inl ex \<Rightarrow> Inl ex
                   | Inr st4 \<Rightarrow> Inr (False, st4, out))
                else
                  (case applyModifiedEntries X st3 (modified_ledger_entries out) [] [] of
                     (False, st4, createdAndModifiedKeys, createdKeys) \<Rightarrow> Inr (False, st4, out)
                   | (True, st4, createdAndModifiedKeys, createdKeys) \<Rightarrow>
                       if \<not> checkCreatedKeys (sha256 X) createdKeys createdKeys
                       then Inl ReleaseAssertFailure
                       else
                         (case eraseUntouched (sha256 X) (mLtx st4) createdAndModifiedKeys
                                 (footprintReadWrite (mResources st4)) of
                            Inl ex \<Rightarrow> Inl ex
                          | Inr ltx' \<Rightarrow> Inr (True, st4\<lparr>mLtx := ltx'\<rparr>, out))))))"

definition applyEvents ::
  "External \<Rightarrow> ApplyHelper \<Rightarrow> InvokeHostFunctionOutput \<Rightarrow> bool \<times> ApplyHelper" where
  "applyEvents X st out =
     (case ingestEvents st (contract_events out) [] of
        (False, st1, events) \<Rightarrow> (False, st1)
      | (True, st1, events) \<Rightarrow> finishApply X st1 out events)"

definition ApplyHelper_apply ::
  "External \<Rightarrow> ApplyHelper \<Rightarrow> Exception + (bool \<times> ApplyHelper)" where
  "ApplyHelper_apply X st =
     (case applyUntilEvents X st of
        Inl ex \<Rightarrow> Inl ex
      | Inr (False, st1, out) \<Rightarrow> Inr (False, st1)
      | Inr (True, st1, out) \<Rightarrow> Inr (applyEvents X st1 out))"

definition InvokeHostFunctionOpFrame_doApply ::
  "External \<Rightarrow> bool \<Rightarrow> LedgerTxn \<Rightarrow> SorobanResources \<Rightarrow> SorobanNetworkConfig \<Rightarrow>
   SearchableHotArchiveSnapshot \<Rightarrow> bool \<Rightarrow> nat list option \<Rightarrow> Exception + (bool \<times> ApplyHelper)" where
  "InvokeHostFunctionOpFrame_doApply X refundableFeeTracker ltx resources sorobanConfig
     hotArchive diagnostics resourceExt =
     (if \<not> refundableFeeTracker then Inl ReleaseAssertFailure
      else
        (case newApplyHelper ltx resources sorobanConfig hotArchive diagnostics resourceExt of
           Inl ex \<Rightarrow> Inl ex
         | Inr helper \<Rightarrow> ApplyHelper_apply X helper))"

section \<open>InvariantManagerImpl\<close>

text \<open>
  The manager keeps the registered invariants in a map ordered by name and the enabled ones in
  a vector of shared pointers. An invariant is known here by the address it is stored at.
  \<open>std::regex\<close> is a parameter: \<open>compile\<close> builds the expression from the pattern and the
  syntax flags and returns \<open>None\<close> where the constructor throws \<open>std::regex_error\<close>, and
  \<open>regex_match\<close> decides whether a whole name matches under the match flags.
\<close>

datatype RegexFlag = ECMAScript | icase

datatype MatchFlag = match_not_null

datatype EnableError =
    PatternEmpty
  | InvalidPattern string
  | AlreadyEnabled string
  | NoMatch string "string list"

fun exceptionClass :: "EnableError \<Rightarrow> string" where
  "exceptionClass PatternEmpty = ''std::invalid_argument''"
| "exceptionClass (InvalidPattern _) = ''std::invalid_argument''"
| "exceptionClass (AlreadyEnabled _) = ''std::runtime_error''"
| "exceptionClass (NoMatch _ _) = ''std::runtime_error''"

record InvariantManagerImpl =
  mInvariants :: "(string \<times> nat) list"
  mEnabled :: "nat list"

text \<open>
  The loop over the registered invariants. It returns the flag \<open>enabledSome\<close> and the enabled
  vector at its end, or the name at which it throws together with the vector as it is then.
\<close>

fun enableLoop ::
  "(string \<Rightarrow> bool) \<Rightarrow> (string \<times> nat) list \<Rightarrow> nat list \<Rightarrow> bool \<Rightarrow>
   (string \<times> nat list) + (bool \<times> nat list)" where
  "enableLoop matches [] enabled enabledSome = Inr (enabledSome, enabled)"
| "enableLoop matches ((name, invariant) # rest) enabled enabledSome =
     (if matches name then
        (if invariant \<notin> set enabled
         then enableLoop matches rest (enabled @ [invariant]) True
         else Inl (name, enabled))
      else enableLoop matches rest enabled enabledSome)"

text \<open>
  \<open>enableInvariant\<close> returns the manager as the call leaves it, together with the exception
  it throws, if any.
\<close>

definition enableInvariant ::
  "(string \<Rightarrow> RegexFlag set \<Rightarrow> 'r option) \<Rightarrow> (string \<Rightarrow> 'r \<Rightarrow> MatchFlag set \<Rightarrow> bool) \<Rightarrow>
   InvariantManagerImpl \<Rightarrow> string \<Rightarrow> EnableError option \<times> InvariantManagerImpl" where
  "enableInvariant compile regex_match mgr invPattern =
     (if invPattern = [] then (Some PatternEmpty, mgr)
      else
        (case compile invPattern {ECMAScript, icase} of
           None \<Rightarrow> (Some (InvalidPattern invPattern), mgr)
         | Some r \<Rightarrow>
            (case enableLoop (\<lambda>name. regex_match name r {match_not_null}) (mInvariants mgr)
                    (mEnabled mgr) False of
               Inl (name, enabled) \<Rightarrow> (Some (AlreadyEnabled name), mgr\<lparr>mEnabled := enabled\<rparr>)
             | Inr (enabledSome, enabled) \<Rightarrow>
                 if \<not> enabledSome
                 then (Some (NoMatch invPattern (map fst (mInvariants mgr))),
                       mgr\<lparr>mEnabled := enabled\<rparr>)
                 else (None, mgr\<lparr>mEnabled := enabled\<rparr>))))"

section \<open>Statements of the specification\<close>

text \<open>
  The two stores of a commit as maps from keys to entries: the live store, and the entries
  that the hot archive holds as archived.
\<close>

definition liveStore :: "SearchableSnapshot \<Rightarrow> (LedgerKey \<rightharpoonup> LedgerEntry)" where
  "liveStore lclLiveState = findEntry (snapEntries lclLiveState)"

definition hotArchiveStore ::
  "SearchableHotArchiveSnapshot \<Rightarrow> (LedgerKey \<rightharpoonup> LedgerEntry)" where
  "hotArchiveStore lclHotArchiveState k =
     (case hotArchiveLoad lclHotArchiveState k of
        Some (HOT_ARCHIVE_ARCHIVED e) \<Rightarrow> Some e
      | _ \<Rightarrow> None)"

text \<open>
  The conditions E2 to E5 of the specification on one evicted entry and E6 on one deleted
  temporary key, written from the words of the specification over a live store and a hot
  archive. E6 asks that the TTL of the key is in the live store and expired; it does not ask
  for the key itself.
\<close>

definition evictedEntryOk ::
  "(LedgerKey \<Rightarrow> Hash) \<Rightarrow> (LedgerKey \<rightharpoonup> LedgerEntry) \<Rightarrow> (LedgerKey \<rightharpoonup> LedgerEntry) \<Rightarrow>
   uint32 \<Rightarrow> uint32 \<Rightarrow> LedgerEntry \<Rightarrow> bool" where
  "evictedEntryOk sha live archived nextLedgerSeq ledgerVers e =
     (archived (LedgerEntryKey e) = None \<and>
      (case live (LedgerEntryKey e) of
         None \<Rightarrow> False
       | Some entry \<Rightarrow>
          (case live (getTTLKey sha (LedgerEntryKey e)) of
             None \<Rightarrow> False
           | Some ttl \<Rightarrow>
               \<not> isLive ttl nextLedgerSeq \<and>
               (if protocolVersionStartsFrom ledgerVers V_24 then e = entry else True))))"

definition deletedTempKeyOk ::
  "(LedgerKey \<Rightarrow> Hash) \<Rightarrow> (LedgerKey \<rightharpoonup> LedgerEntry) \<Rightarrow> uint32 \<Rightarrow> LedgerKey \<Rightarrow> bool" where
  "deletedTempKeyOk sha live nextLedgerSeq lk =
     (case live (getTTLKey sha lk) of
        None \<Rightarrow> False
      | Some ttl \<Rightarrow> \<not> isLive ttl nextLedgerSeq)"

text \<open>
  The test that a result of the check reports the count failure. The eviction check returns
  one message, and the check on ledger commit returns it in front of the newline and the
  message of the restore check: the count failure is reported when it is the first message.
\<close>

fun isCountMismatch :: "Exception + Msg list \<Rightarrow> bool" where
  "isCountMismatch (Inr (TTLCountMismatch _ _ _ # _)) = True"
| "isCountMismatch _ = False"

text \<open>
  The size of a buffer as the source meters it, a \<open>uint32_t\<close>, and the value of the event
  byte counter after a list of events, starting from \<open>base\<close>.
\<close>

definition bufSize :: "CxxBuf \<Rightarrow> uint32" where
  "bufSize b = of_nat (length b)"

definition eventBytes :: "uint32 \<Rightarrow> CxxBuf list \<Rightarrow> uint32" where
  "eventBytes base evs = base + sum_list (map bufSize evs)"

fun withinLimit :: "uint32 \<Rightarrow> uint32 \<Rightarrow> CxxBuf list \<Rightarrow> bool" where
  "withinLimit limit base [] = True"
| "withinLimit limit base (b # rest) =
     (base + bufSize b \<le> limit \<and> withinLimit limit (base + bufSize b) rest)"

text \<open>
  A diagnostic event that describes an archived key: an invalid input error of the value
  category that carries the hash of a contract code key, or the contract address and the
  storage key of a contract data key.
\<close>

fun describesKey :: "LedgerKey \<Rightarrow> DiagnosticEvent \<Rightarrow> bool" where
  "describesKey (ContractCodeKey h) (DiagnosticError SCE_VALUE SCEC_INVALID_INPUT msg [SCV_BYTES h']) =
     (h' = h)"
| "describesKey (ContractDataKey c k d)
     (DiagnosticError SCE_VALUE SCEC_INVALID_INPUT msg [SCV_ADDRESS c', SCV_KEY k']) =
     (c' = c \<and> k' = k)"
| "describesKey _ _ = False"

text \<open>
  A key of the read-write footprint is marked for autorestore when the resource extension of
  the transaction lists its index among the archived entries.
\<close>

definition markedForAutorestore :: "nat list option \<Rightarrow> nat \<Rightarrow> bool" where
  "markedForAutorestore resourceExt index =
     (case resourceExt of None \<Rightarrow> False | Some archivedEntries \<Rightarrow> index \<in> set archivedEntries)"

text \<open>
  What \<open>ApplyHelper\<close> never changes once it is constructed: the resources, the configuration,
  the hot archive snapshot, the autorestore bitmap, the diagnostics flag and the ledger header;
  and the event byte counter, which only the event loop changes.
\<close>

definition sameSetup :: "ApplyHelper \<Rightarrow> ApplyHelper \<Rightarrow> bool" where
  "sameSetup st st' =
     (mResources st' = mResources st \<and> mSorobanConfig st' = mSorobanConfig st \<and>
      mHotArchive st' = mHotArchive st \<and> mAutorestoredEntries st' = mAutorestoredEntries st \<and>
      ENABLE_SOROBAN_DIAGNOSTIC_EVENTS st' = ENABLE_SOROBAN_DIAGNOSTIC_EVENTS st \<and>
      ledgerSeq (mLtx st') = ledgerSeq (mLtx st) \<and>
      ledgerVersion (mLtx st') = ledgerVersion (mLtx st) \<and>
      mEmitEventByte (mMetrics st') = mEmitEventByte (mMetrics st))"

text \<open>
  The \<open>liveUntilLedgerSeq\<close> of the TTL entry of a key in the ledger transaction, and the
  archived state of the data model: the TTL of the key is in the live state and expired, or
  the key has no TTL in the live state and is in the hot archive, which exists from the first
  protocol that supports persistent eviction on.
\<close>

definition ttlLiveUntil :: "(LedgerKey \<Rightarrow> Hash) \<Rightarrow> LedgerTxn \<Rightarrow> LedgerKey \<Rightarrow> uint32 option" where
  "ttlLiveUntil sha ltx lk =
     (case loadWithoutRecord ltx (getTTLKey sha lk) of
        None \<Rightarrow> None
      | Some e \<Rightarrow> (case data e of TTLEntry h liveUntil \<Rightarrow> Some liveUntil | _ \<Rightarrow> None))"

definition isArchived ::
  "(LedgerKey \<Rightarrow> Hash) \<Rightarrow> LedgerTxn \<Rightarrow> SearchableHotArchiveSnapshot \<Rightarrow> LedgerKey \<Rightarrow> bool" where
  "isArchived sha ltx hotArchive lk =
     (case loadWithoutRecord ltx (getTTLKey sha lk) of
        Some ttl \<Rightarrow> \<not> isLive ttl (ledgerSeq ltx)
      | None \<Rightarrow>
          protocolVersionStartsFrom (ledgerVersion ltx)
            FIRST_PROTOCOL_SUPPORTING_PERSISTENT_EVICTION \<and>
          hotArchiveLoad hotArchive lk \<noteq> None)"

text \<open>
  Two relations between the ledger transaction before and after a step. \<open>changesOnly\<close>: the
  header is the same and every key outside the given set loads the same entry.
  \<open>ttlWritesOnly\<close>: the header is the same and every TTL key loads the same entry as before,
  or a TTL entry with the given \<open>liveUntilLedgerSeq\<close>.
\<close>

definition changesOnly :: "LedgerKey set \<Rightarrow> LedgerTxn \<Rightarrow> LedgerTxn \<Rightarrow> bool" where
  "changesOnly ks ltx ltx' =
     (ledgerSeq ltx' = ledgerSeq ltx \<and> ledgerVersion ltx' = ledgerVersion ltx \<and>
      (\<forall>k. k \<in> ks \<or> loadWithoutRecord ltx' k = loadWithoutRecord ltx k))"

definition ttlWritesOnly :: "uint32 \<Rightarrow> LedgerTxn \<Rightarrow> LedgerTxn \<Rightarrow> bool" where
  "ttlWritesOnly liveUntil ltx ltx' =
     (ledgerSeq ltx' = ledgerSeq ltx \<and> ledgerVersion ltx' = ledgerVersion ltx \<and>
      (\<forall>h. loadWithoutRecord ltx' (TTLKey h) = loadWithoutRecord ltx (TTLKey h) \<or>
           (\<exists>e. loadWithoutRecord ltx' (TTLKey h) = Some e \<and> data e = TTLEntry h liveUntil)))"

section \<open>Example inputs\<close>

text \<open>
  A small ledger at sequence 100 under protocol 23: a contract code entry that was evicted to
  the hot archive, a persistent data entry whose TTL has expired but that is still in the live
  state, and a persistent data entry that is live.
\<close>

fun exampleSha :: "LedgerKey \<Rightarrow> Hash" where
  "exampleSha (ContractCodeKey h) = 1000 + h"
| "exampleSha (ContractDataKey c k d) = 2000 + k"
| "exampleSha _ = 0"

definition archivedCode :: LedgerEntry where
  "archivedCode = \<lparr>lastModifiedLedgerSeq = 40, data = ContractCodeEntry 1 [1, 2, 3], ext = 0\<rparr>"

definition expiredData :: LedgerEntry where
  "expiredData =
     \<lparr>lastModifiedLedgerSeq = 30, data = ContractDataEntry 2 3 PERSISTENT 77, ext = 0\<rparr>"

definition expiredDataTTL :: LedgerEntry where
  "expiredDataTTL = \<lparr>lastModifiedLedgerSeq = 30, data = TTLEntry 2003 50, ext = 0\<rparr>"

definition liveData :: LedgerEntry where
  "liveData = \<lparr>lastModifiedLedgerSeq = 90, data = ContractDataEntry 2 4 PERSISTENT 88, ext = 0\<rparr>"

definition liveDataTTL :: LedgerEntry where
  "liveDataTTL = \<lparr>lastModifiedLedgerSeq = 90, data = TTLEntry 2004 200, ext = 0\<rparr>"

definition exampleLtx :: LedgerTxn where
  "exampleLtx =
     \<lparr>ledgerVersion = 23, ledgerSeq = 100,
      liveEntries = [expiredData, expiredDataTTL, liveData, liveDataTTL],
      hotArchiveEntries = [archivedCode]\<rparr>"

definition exampleHotArchive :: SearchableHotArchiveSnapshot where
  "exampleHotArchive = [HOT_ARCHIVE_ARCHIVED archivedCode]"

definition exampleConfig :: SorobanNetworkConfig where
  "exampleConfig =
     \<lparr>minPersistentTTL = 16, txMemoryLimit = 1000, txMaxContractEventsSizeBytes = 5\<rparr>"

definition failedOutput :: InvokeHostFunctionOutput where
  "failedOutput = initialOutput\<lparr>cpu_insns := 200, mem_bytes := 10\<rparr>"

definition successOutput :: "CxxBuf list \<Rightarrow> CxxBuf \<Rightarrow> InvokeHostFunctionOutput" where
  "successOutput events returnValue =
     initialOutput\<lparr>success := True, contract_events := events, result_value := returnValue\<rparr>"

definition exampleExternal :: "InvokeHostFunctionOutput option \<Rightarrow> External" where
  "exampleExternal out =
     \<lparr>sha256 = exampleSha,
      xdr_size_key = (\<lambda>k. 4),
      toCxxBuf = (\<lambda>e. [0, 0, 0, 0]),
      ttlToCxxBuf = (\<lambda>d. [0]),
      xdr_from_opaque = (\<lambda>b. liveData),
      validateContractLedgerEntry = (\<lambda>k n. True),
      contract_code_memory_size_for_rent = (\<lambda>d. 10),
      compute_rent_fee = (\<lambda>cs. 0),
      consumeRefundableSorobanResources = (\<lambda>n fee. True),
      invoke_host_function = (\<lambda>es ts. out)\<rparr>"

definition exampleResources :: "LedgerKey list \<Rightarrow> LedgerKey list \<Rightarrow> SorobanResources" where
  "exampleResources ro rw =
     \<lparr>footprintReadOnly = ro, footprintReadWrite = rw, instructions = 100,
      diskReadBytes = 1000, writeBytes = 1000\<rparr>"

definition exampleHelper :: "LedgerKey list \<Rightarrow> LedgerKey list \<Rightarrow> bool list \<Rightarrow> ApplyHelper" where
  "exampleHelper ro rw autorestored =
     \<lparr>mLtx = exampleLtx, mRes = None, mLedgerEntryCxxBufs = [], mTtlEntryCxxBufs = [],
      mMetrics = newHostFunctionMetrics, mDiagnosticEvents = [],
      mAutorestoredEntries = autorestored, opMetaEvents = [], opMetaReturnValue = None,
      mResources = exampleResources ro rw, mSorobanConfig = exampleConfig,
      mHotArchive = exampleHotArchive, ENABLE_SOROBAN_DIAGNOSTIC_EVENTS = False\<rparr>"

text \<open>
  A toy regular expression engine for the invariant manager: a pattern compiles unless it is
  an unbalanced parenthesis, \<open>.*\<close> matches every name and any other pattern matches the
  name equal to it. Two invariants are registered and the second one is enabled.
\<close>

definition exampleCompile :: "string \<Rightarrow> RegexFlag set \<Rightarrow> string option" where
  "exampleCompile pattern flags = (if pattern = ''('' then None else Some pattern)"

definition exampleMatch :: "string \<Rightarrow> string \<Rightarrow> MatchFlag set \<Rightarrow> bool" where
  "exampleMatch name r flags = (r = ''.*'' \<or> name = r)"

definition exampleManager :: InvariantManagerImpl where
  "exampleManager =
     \<lparr>mInvariants = [(''ArchivedStateConsistency'', 1), (''ConservationOfLumens'', 2)],
      mEnabled = [2]\<rparr>"

section \<open>Properties of ArchivedStateConsistency\<close>

text \<open>
  C10. Before the first protocol that supports persistent eviction the invariant does nothing:
  the startup scan and the check on ledger commit both return the empty string, whatever the
  stores, the evicted entries, the deleted keys and the restored entries are.
\<close>

theorem archived_state_consistency_skipped_before_persistent_eviction:
  "(protocolVersionIsBefore (lastClosedLedgerVersion app)
       FIRST_PROTOCOL_SUPPORTING_PERSISTENT_EVICTION \<longrightarrow> start lt app = []) \<and>
   (protocolVersionIsBefore (snapLedgerVersion lclLiveState)
       FIRST_PROTOCOL_SUPPORTING_PERSISTENT_EVICTION \<longrightarrow>
      checkOnLedgerCommit sha lclLiveState lclHotArchiveState evictedFromLive
        deletedKeysFromLive restoredFromArchive restoredFromLiveState = Inr [])"
  by (simp add: start_def checkOnLedgerCommit_def)

text \<open>
  At protocol 22 a key that is both live and archived, and an evicted entry that is still
  live, go unreported; the last conjunct shows that the same stores fail the scan at
  protocol 23.
\<close>

theorem archived_state_consistency_skipped_witness:
  "protocolVersionIsBefore 22 FIRST_PROTOCOL_SUPPORTING_PERSISTENT_EVICTION \<and>
   start (\<lambda>a b. False)
     \<lparr>lastClosedLedgerVersion = 22,
      completeHotArchiveState = [(ContractCodeKey 1, archivedCode)],
      completeLedgerState = [(ContractCodeKey 1, archivedCode)]\<rparr> = [] \<and>
   checkOnLedgerCommit exampleSha
     \<lparr>snapLedgerVersion = 22, snapLedgerSeq = 99, snapEntries = [liveData, liveDataTTL]\<rparr>
     [] [liveData] [] [] [] = Inr [] \<and>
   start (\<lambda>a b. False)
     \<lparr>lastClosedLedgerVersion = 23,
      completeHotArchiveState = [(ContractCodeKey 1, archivedCode)],
      completeLedgerState = [(ContractCodeKey 1, archivedCode)]\<rparr>
     = [BothLiveAndArchived (ContractCodeKey 1)]"
proof -
  have v: "protocolVersionIsBefore 22 FIRST_PROTOCOL_SUPPORTING_PERSISTENT_EVICTION"
    by (simp add: protocolVersionIsBefore_def FIRST_PROTOCOL_SUPPORTING_PERSISTENT_EVICTION_def
          V_23_def)
  have s: "start (\<lambda>a b. False)
     \<lparr>lastClosedLedgerVersion = 23,
      completeHotArchiveState = [(ContractCodeKey 1, archivedCode)],
      completeLedgerState = [(ContractCodeKey 1, archivedCode)]\<rparr>
     = [BothLiveAndArchived (ContractCodeKey 1)]"
    by (simp add: start_def protocolVersionIsBefore_def
          FIRST_PROTOCOL_SUPPORTING_PERSISTENT_EVICTION_def V_23_def)
  show ?thesis
    using v s
      archived_state_consistency_skipped_before_persistent_eviction
        [of "\<lparr>lastClosedLedgerVersion = 22,
               completeHotArchiveState = [(ContractCodeKey 1, archivedCode)],
               completeLedgerState = [(ContractCodeKey 1, archivedCode)]\<rparr>"
            "\<lambda>a b. False"
            "\<lparr>snapLedgerVersion = 22, snapLedgerSeq = 99,
               snapEntries = [liveData, liveDataTTL]\<rparr>"
            exampleSha "[]" "[liveData]" "[]" "[]" "[]"]
    by simp
qed

text \<open>
  What the hot archive loop reports for one restored pair: a difference of the \<open>data\<close>
  payloads at every protocol version, a difference of the \<open>ext\<close> payloads from protocol 24 on.
\<close>

lemma checkHotArchiveRestores_step:
  "checkHotArchiveRestores live arch ver ((key, entry) # rest) =
    (if live key \<noteq> None then [RestoredFromArchiveStillLive key]
     else if keyType key = TTL then checkHotArchiveRestores live arch ver rest
     else case arch key of
         None \<Rightarrow> [RestoredFromArchiveNotInArchive key]
       | Some h \<Rightarrow>
           if data h \<noteq> data entry \<or> (ext h \<noteq> ext entry \<and> V_24 \<le> ver)
           then [RestoredFromArchiveIncorrectValue entry h]
           else checkHotArchiveRestores live arch ver rest)"
  by (simp add: protocolVersionStartsFrom_def split: option.splits)

text \<open>
  C1. The check on ledger commit at protocol 23, for a restored contract code entry whose
  \<open>data\<close> payload differs from the archived one: the payload mismatch is reported, although
  the protocol version is before 24.
\<close>

theorem restore_payload_mismatch_reported_at_protocol_23:
  "checkOnLedgerCommit exampleSha
     \<lparr>snapLedgerVersion = 23, snapLedgerSeq = 99, snapEntries = []\<rparr>
     [HOT_ARCHIVE_ARCHIVED archivedCode] [] []
     [(ContractCodeKey 1, archivedCode\<lparr>data := ContractCodeEntry 1 [9]\<rparr>),
      (TTLKey 1001, \<lparr>lastModifiedLedgerSeq = 100, data = TTLEntry 1001 115, ext = 0\<rparr>)]
     []
   = Inr [Newline,
          RestoredFromArchiveIncorrectValue
            (archivedCode\<lparr>data := ContractCodeEntry 1 [9]\<rparr>) archivedCode]"
  by (simp add: checkOnLedgerCommit_def protocolVersionIsBefore_def
        FIRST_PROTOCOL_SUPPORTING_PERSISTENT_EVICTION_def V_23_def V_24_def allKeys_def
        collectKeys_def collectEntryKeys_def getTTLKeyOfEntry_def loadKeys_def
        List.map_filter_def findEntry_def hotArchiveLoad_def preloadLive_def
        LedgerEntryKey_def getTTLKey_def checkEvictionInvariants_def
        checkRestoreInvariants_def protocolVersionStartsFrom_def archivedCode_def)

text \<open>
  The same commit with a difference in \<open>ext\<close> only passes at protocol 23: the version guard
  covers the second comparison and not the first.
\<close>

lemma restore_ext_mismatch_skipped_at_protocol_23:
  "checkOnLedgerCommit exampleSha
     \<lparr>snapLedgerVersion = 23, snapLedgerSeq = 99, snapEntries = []\<rparr>
     [HOT_ARCHIVE_ARCHIVED archivedCode] [] []
     [(ContractCodeKey 1, archivedCode\<lparr>ext := 1\<rparr>),
      (TTLKey 1001, \<lparr>lastModifiedLedgerSeq = 100, data = TTLEntry 1001 115, ext = 0\<rparr>)]
     []
   = Inr []"
  by (simp add: checkOnLedgerCommit_def protocolVersionIsBefore_def
        FIRST_PROTOCOL_SUPPORTING_PERSISTENT_EVICTION_def V_23_def V_24_def allKeys_def
        collectKeys_def collectEntryKeys_def getTTLKeyOfEntry_def loadKeys_def
        List.map_filter_def findEntry_def hotArchiveLoad_def preloadLive_def
        LedgerEntryKey_def getTTLKey_def checkEvictionInvariants_def
        checkRestoreInvariants_def protocolVersionStartsFrom_def archivedCode_def)

lemma checkArchivedEntries_not_count:
  "checkArchivedEntries sha live arch seq vers es = r \<Longrightarrow> \<not> isCountMismatch r"
  by (induction es arbitrary: r) (auto simp: Let_def split: option.splits if_splits)

lemma checkArchivedEntries_passes_iff:
  "checkArchivedEntries sha live arch seq vers es = Inr [] \<longleftrightarrow>
     list_all (\<lambda>e. isPersistentEntryData (data e) \<and> evictedEntryOk sha live arch seq vers e) es"
  by (induction es)
     (auto simp: Let_def evictedEntryOk_def getTTLKeyOfEntry_def split: option.splits if_splits)

lemma countDeletedKeys_counts_iff:
  "countDeletedKeys sha live seq ks a b = Inr (x, y) \<longleftrightarrow>
     list_all (\<lambda>k. isTemporaryEntry k \<longrightarrow> live k \<noteq> None \<and> deletedTempKeyOk sha live seq k) ks \<and>
     x = a + length (filter (\<lambda>k. \<not> isTemporaryEntry k) ks) \<and>
     y = b + length (filter isTemporaryEntry ks)"
  by (induction ks arbitrary: a b)
     (auto simp: Let_def deletedTempKeyOk_def split: option.splits if_splits)

lemma countDeletedKeys_not_count:
  "countDeletedKeys sha live seq ks a b = Inl m \<Longrightarrow> \<not> isCountMismatch (Inr m)"
  by (induction ks arbitrary: a b) (auto simp: Let_def split: option.splits if_splits)

lemma checkEvictionInvariants_count_iff:
  "isCountMismatch (checkEvictionInvariants sha live arch deletedKeys evicted seq vers) \<longleftrightarrow>
     list_all (\<lambda>e. isPersistentEntryData (data e) \<and> evictedEntryOk sha live arch seq vers e)
       evicted \<and>
     list_all (\<lambda>k. isTemporaryEntry k \<longrightarrow> live k \<noteq> None \<and> deletedTempKeyOk sha live seq k)
       deletedKeys \<and>
     length (filter isTemporaryEntry deletedKeys) + length evicted
       \<noteq> length (filter (\<lambda>k. \<not> isTemporaryEntry k) deletedKeys)"
proof (cases "deletedKeys = [] \<and> evicted = []")
  case True
  then show ?thesis by (simp add: checkEvictionInvariants_def)
next
  case False
  show ?thesis
  proof (cases "checkArchivedEntries sha live arch seq vers evicted")
    case (Inl ex)
    with False show ?thesis
      using checkArchivedEntries_passes_iff[of sha live arch seq vers evicted]
      by (auto simp: checkEvictionInvariants_def)
  next
    case (Inr ms)
    note archived = this
    show ?thesis
    proof (cases ms)
      case Nil
      with archived have ok:
        "list_all (\<lambda>e. isPersistentEntryData (data e) \<and> evictedEntryOk sha live arch seq vers e)
           evicted"
        using checkArchivedEntries_passes_iff[of sha live arch seq vers evicted] by simp
      show ?thesis
      proof (cases "countDeletedKeys sha live seq deletedKeys 0 0")
        case (Inl m)
        then have "\<not> isCountMismatch (Inr m)" by (rule countDeletedKeys_not_count)
        moreover have
          "\<not> list_all (\<lambda>k. isTemporaryEntry k \<longrightarrow> live k \<noteq> None \<and> deletedTempKeyOk sha live seq k)
                deletedKeys"
          using Inl countDeletedKeys_counts_iff[of sha live seq deletedKeys 0 0]
          by (metis Inl_Inr_False)
        ultimately show ?thesis using False archived Nil Inl
          by (simp add: checkEvictionInvariants_def)
      next
        case (Inr p)
        obtain x y where p: "p = (x, y)" by (cases p)
        with Inr have "countDeletedKeys sha live seq deletedKeys 0 0 = Inr (x, y)" by simp
        then have c:
          "list_all (\<lambda>k. isTemporaryEntry k \<longrightarrow> live k \<noteq> None \<and> deletedTempKeyOk sha live seq k)
             deletedKeys"
          "x = length (filter (\<lambda>k. \<not> isTemporaryEntry k) deletedKeys)"
          "y = length (filter isTemporaryEntry deletedKeys)"
          using countDeletedKeys_counts_iff[of sha live seq deletedKeys 0 0 x y] by simp_all
        show ?thesis using False archived Nil Inr p ok c
          by (simp add: checkEvictionInvariants_def)
      qed
    next
      case (Cons m ms')
      with archived have "\<not> isCountMismatch (Inr (m # ms'))"
        using checkArchivedEntries_not_count by blast
      moreover have
        "\<not> list_all (\<lambda>e. isPersistentEntryData (data e) \<and>
                         evictedEntryOk sha live arch seq vers e) evicted"
        using archived Cons checkArchivedEntries_passes_iff[of sha live arch seq vers evicted]
        by simp
      ultimately show ?thesis using False archived Cons
        by (simp add: checkEvictionInvariants_def)
    qed
  qed
qed

text \<open>
  The eviction check returns at most one message.
\<close>

lemma checkArchivedEntries_one_message:
  "checkArchivedEntries sha live arch seq vers es = Inr ms \<Longrightarrow> length ms \<le> 1"
  by (induction es) (auto simp: Let_def split: option.splits if_splits)

lemma countDeletedKeys_one_message:
  "countDeletedKeys sha live seq ks a b = Inl ms \<Longrightarrow> length ms = 1"
  by (induction ks arbitrary: a b) (auto simp: Let_def split: option.splits if_splits)

lemma checkEvictionInvariants_one_message:
  "checkEvictionInvariants sha live arch deletedKeys evicted seq vers = Inr ms \<Longrightarrow>
     length ms \<le> 1"
  by (auto simp: checkEvictionInvariants_def split: if_splits sum.splits list.splits prod.splits
           dest: checkArchivedEntries_one_message countDeletedKeys_one_message)

lemma length_filter_remdups:
  "length (filter P (remdups xs)) = card {x \<in> set xs. P x}"
proof -
  have "distinct (filter P (remdups xs))" by simp
  then have "length (filter P (remdups xs)) = card (set (filter P (remdups xs)))"
    by (simp only: distinct_card)
  then show ?thesis by simp
qed

text \<open>
  Whether the count failure is reported does not depend on the order in which the iteration
  visits the set of the deleted keys.
\<close>

lemma count_report_independent_of_order:
  assumes "distinct ds" and "set ds = set deletedKeysFromLive"
  shows "isCountMismatch (checkEvictionInvariants sha live arch ds evicted seq vers)
           = isCountMismatch
               (checkEvictionInvariants sha live arch (remdups deletedKeysFromLive) evicted seq
                  vers)"
proof -
  have l: "length (filter P ds) = card {x \<in> set ds. P x}" for P
    using length_filter_remdups[of P ds] assms(1) by (simp add: distinct_remdups_id)
  show ?thesis
    unfolding checkEvictionInvariants_count_iff length_filter_remdups l
    by (simp add: list_all_iff assms(2))
qed

text \<open>
  What the check on ledger commit preloads. A key of \<open>allKeys\<close> has in the preloaded live map
  the entry that the live store holds for it, and in the preloaded archive map the entry that
  the hot archive holds for it as archived; a key outside \<open>allKeys\<close> is in neither map.
\<close>

lemma findEntry_key: "findEntry es k = Some e \<Longrightarrow> LedgerEntryKey e = k"
  by (auto simp: findEntry_def find_Some_iff)

lemma hotArchiveLoad_key:
  "hotArchiveLoad snap k = Some (HOT_ARCHIVE_ARCHIVED e) \<Longrightarrow> LedgerEntryKey e = k"
  by (induction snap) (auto simp: hotArchiveLoad_def split: if_splits)

lemma loadKeys_snoc:
  "loadKeys ld (ks @ [k]) = loadKeys ld ks @ (case ld k of None \<Rightarrow> [] | Some v \<Rightarrow> [v])"
  by (simp add: loadKeys_def List.map_filter_def split: option.splits)

lemma preloadLive_loadKeys:
  "preloadLive (loadKeys (findEntry es) ks) k = (if k \<in> set ks then findEntry es k else None)"
proof (induction ks rule: rev_induct)
  case Nil
  show ?case by (simp add: preloadLive_def loadKeys_def List.map_filter_def)
next
  case (snoc x ks)
  show ?case
  proof (cases "findEntry es x")
    case None
    then have "loadKeys (findEntry es) (ks @ [x]) = loadKeys (findEntry es) ks"
      by (simp add: loadKeys_snoc)
    with snoc None show ?thesis by auto
  next
    case (Some e)
    then have k: "LedgerEntryKey e = x" by (rule findEntry_key)
    from Some have "loadKeys (findEntry es) (ks @ [x]) = loadKeys (findEntry es) ks @ [e]"
      by (simp add: loadKeys_snoc)
    then have "preloadLive (loadKeys (findEntry es) (ks @ [x]))
                 = (preloadLive (loadKeys (findEntry es) ks))(x \<mapsto> e)"
      by (simp add: preloadLive_def k)
    with snoc Some show ?thesis by auto
  qed
qed

lemma preloadArchived_append:
  "preloadArchived (xs @ ys) m = preloadArchived ys (preloadArchived xs m)"
proof (induction xs arbitrary: m)
  case Nil
  show ?case by simp
next
  case (Cons b xs)
  then show ?case by (cases b) (simp_all del: fun_upd_apply)
qed

lemma preloadArchived_loadKeys:
  "preloadArchived (loadKeys (hotArchiveLoad snap) ks) Map.empty k
     = (if k \<in> set ks then hotArchiveStore snap k else None)"
proof (induction ks rule: rev_induct)
  case Nil
  show ?case by (simp add: loadKeys_def List.map_filter_def)
next
  case (snoc x ks)
  show ?case
  proof (cases "hotArchiveLoad snap x")
    case None
    then have "loadKeys (hotArchiveLoad snap) (ks @ [x]) = loadKeys (hotArchiveLoad snap) ks"
      by (simp add: loadKeys_snoc)
    with snoc None show ?thesis by (auto simp: hotArchiveStore_def)
  next
    case (Some b)
    then have l: "loadKeys (hotArchiveLoad snap) (ks @ [x])
                    = loadKeys (hotArchiveLoad snap) ks @ [b]"
      by (simp add: loadKeys_snoc)
    show ?thesis
    proof (cases b)
      case (HOT_ARCHIVE_ARCHIVED e)
      with Some have k: "LedgerEntryKey e = x" by (simp add: hotArchiveLoad_key)
      have "preloadArchived (loadKeys (hotArchiveLoad snap) (ks @ [x])) Map.empty
              = (preloadArchived (loadKeys (hotArchiveLoad snap) ks) Map.empty)(x \<mapsto> e)"
        by (simp add: l preloadArchived_append HOT_ARCHIVE_ARCHIVED k)
      with snoc Some HOT_ARCHIVE_ARCHIVED show ?thesis by (auto simp: hotArchiveStore_def)
    next
      case (HOT_ARCHIVE_LIVE k')
      have "preloadArchived (loadKeys (hotArchiveLoad snap) (ks @ [x])) Map.empty
              = preloadArchived (loadKeys (hotArchiveLoad snap) ks) Map.empty"
        by (simp add: l preloadArchived_append HOT_ARCHIVE_LIVE)
      with snoc Some HOT_ARCHIVE_LIVE show ?thesis by (auto simp: hotArchiveStore_def)
    next
      case HOT_ARCHIVE_METAENTRY
      have "preloadArchived (loadKeys (hotArchiveLoad snap) (ks @ [x])) Map.empty
              = preloadArchived (loadKeys (hotArchiveLoad snap) ks) Map.empty"
        by (simp add: l preloadArchived_append HOT_ARCHIVE_METAENTRY)
      with snoc Some HOT_ARCHIVE_METAENTRY show ?thesis by (auto simp: hotArchiveStore_def)
    qed
  qed
qed

text \<open>
  The keys that the check preloads: the keys of the evicted entries, the deleted keys, the
  keys of the two restore maps, and the TTL keys that go with the persistent ones.
\<close>

lemma set_collectKeys:
  "set (collectKeys sha ks) =
     set ks \<union> {getTTLKey sha k | k. k \<in> set ks \<and> isPersistentEntry k}"
  by (induction ks) (auto simp: collectKeys_def)

lemma collectEntryKeys_Cons:
  "collectEntryKeys sha ((k, e) # ps) =
     (if isPersistentEntry k then [k, getTTLKeyOfEntry sha e] else [k]) @ collectEntryKeys sha ps"
  by (simp add: collectEntryKeys_def)

lemma set_collectEntryKeys:
  "set (collectEntryKeys sha ps) =
     fst ` set ps \<union>
     {getTTLKey sha (LedgerEntryKey e) | k e. (k, e) \<in> set ps \<and> isPersistentEntry k}"
proof (induction ps)
  case Nil
  show ?case by (simp add: collectEntryKeys_def)
next
  case (Cons p ps)
  obtain k e where p: "p = (k, e)" by (cases p)
  show ?case unfolding p collectEntryKeys_Cons using Cons.IH
    by (auto simp: getTTLKeyOfEntry_def)
qed

lemma set_allKeys:
  "set (allKeys sha evicted deleted restoredA restoredL) =
     LedgerEntryKey ` set evicted \<union> set deleted \<union> fst ` set restoredA \<union>
     fst ` set restoredL \<union>
     {getTTLKey sha (LedgerEntryKey e) | e.
        e \<in> set evicted \<and> isPersistentEntry (LedgerEntryKey e)} \<union>
     {getTTLKey sha k | k. k \<in> set deleted \<and> isPersistentEntry k} \<union>
     {getTTLKey sha (LedgerEntryKey e) | k e. (k, e) \<in> set restoredA \<and> isPersistentEntry k} \<union>
     {getTTLKey sha (LedgerEntryKey e) | k e. (k, e) \<in> set restoredL \<and> isPersistentEntry k}"
  unfolding allKeys_def set_append set_collectKeys set_collectEntryKeys
  by (auto simp: image_iff)

text \<open>
  The keys of the evicted entries and of the deleted keys are in \<open>allKeys\<close>, and so is the
  TTL key of a persistent evicted entry.
\<close>

lemma evicted_in_allKeys:
  assumes "e \<in> set evicted"
  shows "LedgerEntryKey e \<in> set (allKeys sha evicted deleted restoredA restoredL)"
    and "isPersistentEntryData (data e) \<Longrightarrow>
           getTTLKey sha (LedgerEntryKey e) \<in> set (allKeys sha evicted deleted restoredA restoredL)"
proof -
  have "LedgerEntryKey e
          \<in> set (collectEntryKeys sha (map (\<lambda>e. (LedgerEntryKey e, e)) evicted))"
    using assms by (force simp: collectEntryKeys_def)
  then show "LedgerEntryKey e \<in> set (allKeys sha evicted deleted restoredA restoredL)"
    by (simp add: allKeys_def)
  assume "isPersistentEntryData (data e)"
  then have "getTTLKey sha (LedgerEntryKey e)
          \<in> set (collectEntryKeys sha (map (\<lambda>e. (LedgerEntryKey e, e)) evicted))"
    using assms
    by (force simp: collectEntryKeys_def isPersistentEntryData_def LedgerEntryKey_def
          getTTLKeyOfEntry_def)
  then show "getTTLKey sha (LedgerEntryKey e)
          \<in> set (allKeys sha evicted deleted restoredA restoredL)"
    by (simp add: allKeys_def)
qed

lemma deleted_in_allKeys:
  assumes "k \<in> set deleted"
  shows "k \<in> set (allKeys sha evicted deleted restoredA restoredL)"
proof -
  have "k \<in> set (collectKeys sha deleted)"
    using assms by (force simp: collectKeys_def)
  then show ?thesis by (simp add: allKeys_def)
qed

lemma evictedEntryOk_preloaded:
  assumes "e \<in> set evicted" and "isPersistentEntryData (data e)"
      and "\<And>k. live' k = (if k \<in> set (allKeys sha evicted deleted restoredA restoredL)
                            then live k else None)"
      and "\<And>k. arch' k = (if k \<in> set (allKeys sha evicted deleted restoredA restoredL)
                            then arch k else None)"
  shows "evictedEntryOk sha live' arch' seq vers e = evictedEntryOk sha live arch seq vers e"
  using evicted_in_allKeys[OF assms(1), of sha deleted restoredA restoredL] assms(2)
  by (simp add: evictedEntryOk_def assms(3,4) cong: option.case_cong)

text \<open>
  The check on ledger commit reports the count failure when the eviction check, run on the
  preloaded maps and the set of the deleted keys, does.
\<close>

lemma isCountMismatch_append:
  "isCountMismatch (Inr (evictionRes @ [Newline] @ restoreRes)) = isCountMismatch (Inr evictionRes)"
proof (cases evictionRes)
  case Nil
  then show ?thesis by simp
next
  case (Cons m ms)
  then show ?thesis by (cases m) simp_all
qed

lemma checkOnLedgerCommit_count_iff:
  "isCountMismatch
     (checkOnLedgerCommit sha lclLiveState lclHotArchiveState evictedFromLive deletedKeysFromLive
        restoredFromArchive restoredFromLiveState) \<longleftrightarrow>
   \<not> protocolVersionIsBefore (snapLedgerVersion lclLiveState)
       FIRST_PROTOCOL_SUPPORTING_PERSISTENT_EVICTION \<and>
   isCountMismatch
     (checkEvictionInvariants sha
        (preloadLive (loadKeys (findEntry (snapEntries lclLiveState))
           (allKeys sha evictedFromLive deletedKeysFromLive restoredFromArchive
              restoredFromLiveState)))
        (preloadArchived (loadKeys (hotArchiveLoad lclHotArchiveState)
           (allKeys sha evictedFromLive deletedKeysFromLive restoredFromArchive
              restoredFromLiveState)) Map.empty)
        (remdups deletedKeysFromLive) evictedFromLive (snapLedgerSeq lclLiveState + 1)
        (snapLedgerVersion lclLiveState))"
proof (cases "protocolVersionIsBefore (snapLedgerVersion lclLiveState)
                FIRST_PROTOCOL_SUPPORTING_PERSISTENT_EVICTION")
  case True
  then show ?thesis by (simp add: checkOnLedgerCommit_def)
next
  case False
  let ?ev = "checkEvictionInvariants sha
        (preloadLive (loadKeys (findEntry (snapEntries lclLiveState))
           (allKeys sha evictedFromLive deletedKeysFromLive restoredFromArchive
              restoredFromLiveState)))
        (preloadArchived (loadKeys (hotArchiveLoad lclHotArchiveState)
           (allKeys sha evictedFromLive deletedKeysFromLive restoredFromArchive
              restoredFromLiveState)) Map.empty)
        (remdups deletedKeysFromLive) evictedFromLive (snapLedgerSeq lclLiveState + 1)
        (snapLedgerVersion lclLiveState)"
  show ?thesis
  proof (cases ?ev)
    case (Inl ex)
    with False show ?thesis by (simp add: checkOnLedgerCommit_def Let_def)
  next
    case (Inr evictionRes)
    with False show ?thesis
      using isCountMismatch_append[of evictionRes]
      by (cases evictionRes) (simp_all add: checkOnLedgerCommit_def Let_def)
  qed
qed

text \<open>
  C7, as the claim states it, fails. A commit at protocol 23 deletes one temporary key that is
  not in the live state: the two sides of the count identity differ (one temporary key, no
  TTL key), and the check returns the failure of the temporary key, not the count failure.
\<close>

theorem count_identity_counterexample:
  "checkOnLedgerCommit exampleSha
     \<lparr>snapLedgerVersion = 23, snapLedgerSeq = 99, snapEntries = []\<rparr> [] []
     [ContractDataKey 2 9 TEMPORARY] [] []
     = Inr [EvictedTempKeyDoesNotExist (ContractDataKey 2 9 TEMPORARY), Newline] \<and>
   \<not> (isCountMismatch
        (checkOnLedgerCommit exampleSha
           \<lparr>snapLedgerVersion = 23, snapLedgerSeq = 99, snapEntries = []\<rparr> [] []
           [ContractDataKey 2 9 TEMPORARY] [] []) \<longleftrightarrow>
      length (filter isTemporaryEntry [ContractDataKey 2 9 TEMPORARY])
        + length ([] :: LedgerEntry list)
        \<noteq> length (filter (\<lambda>k. \<not> isTemporaryEntry k) [ContractDataKey 2 9 TEMPORARY]))"
  by (simp add: checkOnLedgerCommit_def protocolVersionIsBefore_def
        FIRST_PROTOCOL_SUPPORTING_PERSISTENT_EVICTION_def V_23_def allKeys_def collectKeys_def
        collectEntryKeys_def loadKeys_def List.map_filter_def findEntry_def hotArchiveLoad_def
        preloadLive_def checkEvictionInvariants_def checkRestoreInvariants_def)

text \<open>
  C7, amended. The check on ledger commit reports the count failure if and only if the
  protocol supports persistent eviction, every evicted entry is persistent and passes E2 to
  E5 on the live store and the hot archive, every deleted temporary key is in the live store
  and passes E6 there with a TTL key that is among the keys the check preloads, and the number
  of distinct temporary keys among the deleted keys plus the number of evicted entries differs
  from the number of distinct other keys among the deleted keys. The deleted keys reach the
  eviction check as a set, so each key counts once. The check preloads the TTL key of a
  persistent key by itself, and the TTL key of a temporary key only when that TTL key is one
  of the deleted or restored keys, or the TTL key of one of the persistent keys.
\<close>

theorem count_identity_reported_iff:
  "isCountMismatch
     (checkOnLedgerCommit sha lclLiveState lclHotArchiveState evictedFromLive deletedKeysFromLive
        restoredFromArchive restoredFromLiveState) \<longleftrightarrow>
     \<not> protocolVersionIsBefore (snapLedgerVersion lclLiveState)
         FIRST_PROTOCOL_SUPPORTING_PERSISTENT_EVICTION \<and>
     (\<forall>e \<in> set evictedFromLive.
        isPersistentEntryData (data e) \<and>
        evictedEntryOk sha (liveStore lclLiveState) (hotArchiveStore lclHotArchiveState)
          (snapLedgerSeq lclLiveState + 1) (snapLedgerVersion lclLiveState) e) \<and>
     (\<forall>k \<in> set deletedKeysFromLive.
        isTemporaryEntry k \<longrightarrow>
          liveStore lclLiveState k \<noteq> None \<and>
          getTTLKey sha k \<in> set (allKeys sha evictedFromLive deletedKeysFromLive
                                   restoredFromArchive restoredFromLiveState) \<and>
          deletedTempKeyOk sha (liveStore lclLiveState) (snapLedgerSeq lclLiveState + 1) k) \<and>
     card {k \<in> set deletedKeysFromLive. isTemporaryEntry k} + length evictedFromLive
       \<noteq> card {k \<in> set deletedKeysFromLive. \<not> isTemporaryEntry k}"
proof -
  let ?keys = "allKeys sha evictedFromLive deletedKeysFromLive restoredFromArchive
                 restoredFromLiveState"
  let ?live' = "preloadLive (loadKeys (findEntry (snapEntries lclLiveState)) ?keys)"
  let ?arch' = "preloadArchived (loadKeys (hotArchiveLoad lclHotArchiveState) ?keys) Map.empty"
  let ?live = "liveStore lclLiveState"
  let ?arch = "hotArchiveStore lclHotArchiveState"
  let ?seq = "snapLedgerSeq lclLiveState + 1"
  let ?vers = "snapLedgerVersion lclLiveState"
  have live': "\<And>k. ?live' k = (if k \<in> set ?keys then ?live k else None)"
    by (simp add: preloadLive_loadKeys liveStore_def)
  have arch': "\<And>k. ?arch' k = (if k \<in> set ?keys then ?arch k else None)"
    by (simp add: preloadArchived_loadKeys)
  have evicted:
    "(\<forall>e \<in> set evictedFromLive.
        isPersistentEntryData (data e) \<and> evictedEntryOk sha ?live' ?arch' ?seq ?vers e) \<longleftrightarrow>
     (\<forall>e \<in> set evictedFromLive.
        isPersistentEntryData (data e) \<and> evictedEntryOk sha ?live ?arch ?seq ?vers e)"
    using evictedEntryOk_preloaded[where live' = ?live' and arch' = ?arch' and live = ?live
            and arch = ?arch and sha = sha and evicted = evictedFromLive
            and deleted = deletedKeysFromLive and restoredA = restoredFromArchive
            and restoredL = restoredFromLiveState, OF _ _ live' arch']
    by blast
  have deleted:
    "(\<forall>k \<in> set deletedKeysFromLive.
        isTemporaryEntry k \<longrightarrow> ?live' k \<noteq> None \<and> deletedTempKeyOk sha ?live' ?seq k) \<longleftrightarrow>
     (\<forall>k \<in> set deletedKeysFromLive.
        isTemporaryEntry k \<longrightarrow>
          ?live k \<noteq> None \<and> getTTLKey sha k \<in> set ?keys \<and> deletedTempKeyOk sha ?live ?seq k)"
    using deleted_in_allKeys[of _ deletedKeysFromLive sha evictedFromLive restoredFromArchive
            restoredFromLiveState]
    by (auto simp: live' deletedTempKeyOk_def)
  show ?thesis
    unfolding checkOnLedgerCommit_count_iff checkEvictionInvariants_count_iff
      length_filter_remdups
    using evicted deleted by (simp add: list_all_iff)
qed

text \<open>
  A commit at protocol 23 that deletes an expired temporary entry, its TTL and one more TTL
  key, the temporary key being listed twice: one temporary key and two TTL keys are counted,
  and the count failure is reported.
\<close>

theorem count_identity_reported_witness:
  "isCountMismatch
     (checkOnLedgerCommit exampleSha
        \<lparr>snapLedgerVersion = 23, snapLedgerSeq = 99,
         snapEntries =
           [\<lparr>lastModifiedLedgerSeq = 1, data = ContractDataEntry 2 9 TEMPORARY 0, ext = 0\<rparr>,
            \<lparr>lastModifiedLedgerSeq = 1, data = TTLEntry 2009 99, ext = 0\<rparr>]\<rparr>
        [] []
        [ContractDataKey 2 9 TEMPORARY, TTLKey 2009, TTLKey 7, ContractDataKey 2 9 TEMPORARY]
        [] [])"
proof -
  have c1: "{k. (k = ContractDataKey 2 9 TEMPORARY \<or> k = TTLKey 2009 \<or> k = TTLKey 7 \<or>
                 k = ContractDataKey 2 9 TEMPORARY) \<and> isTemporaryEntry k}
              = {ContractDataKey 2 9 TEMPORARY}"
    by auto
  have c2: "{k. (k = ContractDataKey 2 9 TEMPORARY \<or> k = TTLKey 2009 \<or> k = TTLKey 7 \<or>
                 k = ContractDataKey 2 9 TEMPORARY) \<and> \<not> isTemporaryEntry k}
              = {TTLKey 2009, TTLKey 7}"
    by auto
  show ?thesis
    by (rule iffD2 [OF count_identity_reported_iff])
       (simp add: protocolVersionIsBefore_def FIRST_PROTOCOL_SUPPORTING_PERSISTENT_EVICTION_def
          V_23_def liveStore_def findEntry_def LedgerEntryKey_def allKeys_def collectKeys_def
          collectEntryKeys_def deletedTempKeyOk_def getTTLKey_def isLive_def c1 c2)
qed

section \<open>Properties of RestoreFootprintOpFrame\<close>

lemma allPersistent_iff: "allPersistent ks \<longleftrightarrow> (\<forall>lk \<in> set ks. isPersistentEntry lk)"
  by (induction ks) auto

text \<open>
  C5. The validity check of a restore operation fails, with the result code
  \<open>RESTORE_FOOTPRINT_MALFORMED\<close>, when the read-only footprint is not empty or some key of the
  read-write footprint is not a persistent contract key; in every other case it succeeds.
\<close>

theorem restore_check_valid_malformed_iff:
  "(footprintReadOnly resources \<noteq> [] \<or>
      (\<exists>lk \<in> set (footprintReadWrite resources). \<not> isPersistentEntry lk) \<longrightarrow>
      (\<exists>event. doCheckValidForSoroban resources = Inl (RESTORE_FOOTPRINT_MALFORMED, event))) \<and>
   (footprintReadOnly resources = [] \<and>
      (\<forall>lk \<in> set (footprintReadWrite resources). isPersistentEntry lk) \<longrightarrow>
      doCheckValidForSoroban resources = Inr ())"
  by (auto simp: doCheckValidForSoroban_def allPersistent_iff)

theorem restore_check_valid_witness:
  "(\<exists>event. doCheckValidForSoroban (exampleResources [ContractCodeKey 1] [])
              = Inl (RESTORE_FOOTPRINT_MALFORMED, event)) \<and>
   (\<exists>event. doCheckValidForSoroban
               (exampleResources [] [ContractCodeKey 1, ContractDataKey 2 9 TEMPORARY])
              = Inl (RESTORE_FOOTPRINT_MALFORMED, event)) \<and>
   doCheckValidForSoroban
     (exampleResources [] [ContractCodeKey 1, ContractDataKey 2 3 PERSISTENT]) = Inr ()"
  using restore_check_valid_malformed_iff [of "exampleResources [ContractCodeKey 1] []"]
        restore_check_valid_malformed_iff
          [of "exampleResources [] [ContractCodeKey 1, ContractDataKey 2 9 TEMPORARY]"]
        restore_check_valid_malformed_iff
          [of "exampleResources [] [ContractCodeKey 1, ContractDataKey 2 3 PERSISTENT]"]
  by (simp add: exampleResources_def)

section \<open>Properties of InvokeHostFunctionOpFrame\<close>

lemma sameSetup_refl [simp]: "sameSetup st st"
  by (simp add: sameSetup_def)

lemma sameSetup_trans: "sameSetup a b \<Longrightarrow> sameSetup b c \<Longrightarrow> sameSetup a c"
  by (simp add: sameSetup_def)

lemma mRes_setCode [simp]: "mRes (setCode st c) = Some c"
  by (simp add: setCode_def)

lemma mRes_pushError [simp]: "mRes (pushError st a b c d) = mRes st"
  by (simp add: pushError_def)

lemma noteDiskReadEntry_emit [simp]:
  "mEmitEventByte (noteDiskReadEntry m c k e) = mEmitEventByte m"
  by (simp add: noteDiskReadEntry_def Let_def)

lemma noteWriteEntry_emit [simp]:
  "mEmitEventByte (noteWriteEntry m c k e) = mEmitEventByte m"
  by (simp add: noteWriteEntry_def Let_def)

lemma meterDiskReadResource_same:
  "meterDiskReadResource st lk ks es = (ok, st') \<Longrightarrow> sameSetup st st'"
  by (auto simp: meterDiskReadResource_def Let_def sameSetup_def setCode_def pushError_def
           split: if_splits)

lemma restore_header [simp]:
  "ledgerSeq (fst (restoreFromHotArchive sha ltx e lu)) = ledgerSeq ltx"
  "ledgerVersion (fst (restoreFromHotArchive sha ltx e lu)) = ledgerVersion ltx"
  "ledgerSeq (fst (restoreFromLiveBucketList sha ltx e lu)) = ledgerSeq ltx"
  "ledgerVersion (fst (restoreFromLiveBucketList sha ltx e lu)) = ledgerVersion ltx"
  by (simp_all add: restoreFromHotArchive_def restoreFromLiveBucketList_def Let_def)

lemma handleArchivedEntry_same:
  assumes "handleArchivedEntry X st lk le ro lu hot i = Inr (ok, st')"
  shows "sameSetup st st'"
proof -
  have m: "\<And>ks es ok1 st1. meterDiskReadResource st lk ks es = (ok1, st1) \<Longrightarrow> sameSetup st st1"
    by (rule meterDiskReadResource_same)
  have d: "sameSetup st (archivedEntryDiagnostic st lk)"
    by (simp add: archivedEntryDiagnostic_def sameSetup_def pushError_def split: LedgerKey.splits)
  show ?thesis using assms d
    by (auto simp: handleArchivedEntry_def Let_def sameSetup_def setCode_def pushError_def
             split: sum.splits bool.splits if_splits prod.splits dest!: m)
qed

lemma addReadsEntry_same:
  assumes "addReadsEntry X st lk ks ttl live v = Inr (ok, st')"
  shows "sameSetup st st'"
proof -
  have m: "\<And>s es ok1 st1. meterDiskReadResource s lk ks es = (ok1, st1) \<Longrightarrow> sameSetup s st1"
    by (rule meterDiskReadResource_same)
  show ?thesis using assms
    by (auto simp: addReadsEntry_def Let_def sameSetup_def setCode_def pushError_def
             split: sum.splits option.splits if_splits prod.splits dest!: m)
qed

lemma addReadsKey_same:
  "addReadsKey X ro sq v lu st lk i = Inr (ok, st') \<Longrightarrow> sameSetup st st'"
  by (auto simp: addReadsKey_def Let_def
           split: option.splits if_splits HotArchiveBucketEntry.splits
           dest: handleArchivedEntry_same addReadsEntry_same)

lemma addReadsLoop_same:
  "addReadsLoop X ro sq v lu st keys i = Inr (ok, st') \<Longrightarrow> sameSetup st st'"
proof (induction keys arbitrary: st i)
  case Nil
  then show ?case by simp
next
  case (Cons lk rest)
  then show ?case
    by (auto split: sum.splits bool.splits prod.splits
             dest: addReadsKey_same intro: sameSetup_trans)
qed

lemma addReads_same: "addReads X st keys ro = Inr (ok, st') \<Longrightarrow> sameSetup st st'"
  by (auto simp: addReads_def Let_def dest: addReadsLoop_same)

lemma invokeHost_same: "invokeHost X st = (out, st') \<Longrightarrow> sameSetup st st'"
  by (auto simp: invokeHost_def Let_def sameSetup_def split: option.splits if_splits)

lemma applyModifiedEntries_same:
  "applyModifiedEntries X st bufs cm ck = (ok, st', cm', ck') \<Longrightarrow> sameSetup st st'"
proof (induction bufs arbitrary: st cm ck)
  case Nil
  then show ?case by simp
next
  case (Cons buf rest)
  let ?lk = "LedgerEntryKey (xdr_from_opaque X buf)"
  let ?st1 = "if keyType ?lk \<noteq> TTL
              then st\<lparr>mMetrics := noteWriteEntry (mMetrics st) (isContractCodeEntry ?lk)
                       (of_nat (xdr_size_key X ?lk)) (of_nat (length buf))\<rparr> else st"
  let ?st2 = "?st1\<lparr>mLtx := ltxPut (mLtx ?st1) (xdr_from_opaque X buf)\<rparr>"
  have s1: "sameSetup st ?st1" by (simp add: sameSetup_def)
  have s2: "sameSetup st ?st2" by (simp add: sameSetup_def ltxPut_def)
  from Cons.prems consider
      (fail) "sameSetup st st'"
    | (rec) cm2 ck2 where "applyModifiedEntries X ?st2 rest cm2 ck2 = (ok, st', cm', ck')"
    using s1 by (auto simp: Let_def setCode_def pushError_def sameSetup_def
                      split: if_splits option.splits)
  then show ?case
  proof cases
    case fail then show ?thesis .
  next
    case rec
    from Cons.IH[OF rec] s2 show ?thesis by (rule sameSetup_trans[rotated])
  qed
qed

lemma eraseUntouched_header:
  "eraseUntouched sha ltx cm ks = Inr ltx' \<Longrightarrow>
     ledgerSeq ltx' = ledgerSeq ltx \<and> ledgerVersion ltx' = ledgerVersion ltx"
proof (induction ks arbitrary: ltx)
  case Nil
  then show ?case by simp
next
  case (Cons lk rest)
  from Cons.prems consider
      (skip) "eraseUntouched sha ltx cm rest = Inr ltx'"
    | (erase) "eraseUntouched sha (ltxErase (ltxErase ltx lk) (getTTLKey sha lk)) cm rest = Inr ltx'"
    by (auto simp: Let_def split: if_splits option.splits)
  then show ?case
  proof cases
    case skip
    then show ?thesis by (rule Cons.IH)
  next
    case erase
    from Cons.IH[OF erase] show ?thesis by (simp add: ltxErase_def)
  qed
qed

text \<open>
  The state in which \<open>apply\<close> starts on the events has the setup of the initial state, and
  the output it works on is the value the sandbox returned, a successful one.
\<close>

lemma applyUntilEvents_reaches_events:
  assumes "applyUntilEvents X st = Inr (True, st1, out)"
  shows "sameSetup st st1 \<and> success out"
proof -
  from assms obtain sa where a: "addReads X st (footprintReadOnly (mResources st)) True = Inr (True, sa)"
    by (auto simp: applyUntilEvents_def split: sum.splits bool.splits prod.splits)
  from assms a obtain sb where
    b: "addReads X sa (footprintReadWrite (mResources sa)) False = Inr (True, sb)"
    by (auto simp: applyUntilEvents_def split: sum.splits bool.splits prod.splits)
  obtain o' sc where c: "invokeHost X sb = (o', sc)" by (cases "invokeHost X sb")
  from assms a b c have s: "success o'" and o: "o' = out"
    by (auto simp: applyUntilEvents_def split: sum.splits bool.splits prod.splits if_splits)
  from assms a b c s obtain sd cm ck where
    d: "applyModifiedEntries X sc (modified_ledger_entries o') [] [] = (True, sd, cm, ck)"
    by (auto simp: applyUntilEvents_def split: sum.splits bool.splits prod.splits if_splits)
  from assms a b c s d obtain ltx' where
    e: "eraseUntouched (sha256 X) (mLtx sd) cm (footprintReadWrite (mResources sd)) = Inr ltx'"
       "st1 = sd\<lparr>mLtx := ltx'\<rparr>"
    by (auto simp: applyUntilEvents_def split: sum.splits bool.splits prod.splits if_splits)
  have "sameSetup sd st1"
    using eraseUntouched_header[OF e(1)] e(2) by (simp add: sameSetup_def)
  with addReads_same[OF a] addReads_same[OF b] invokeHost_same[OF c]
       applyModifiedEntries_same[OF d]
  have "sameSetup st st1" by (blast intro: sameSetup_trans)
  with s o show ?thesis by simp
qed

text \<open>
  C3. When both footprint reads have succeeded and the sandbox returns a failure that is not
  an internal error, \<open>apply\<close> returns false with the result code chosen in this order:
  resource limit exceeded when the reported instructions exceed the declared ones, else
  resource limit exceeded when the reported memory exceeds the network limit, else trapped.
  When the sandbox reports an internal error, or throws, \<open>apply\<close> throws.
\<close>

theorem failed_invocation_result_code:
  assumes ro: "addReads X st (footprintReadOnly (mResources st)) True = Inr (True, st1)"
      and rw: "addReads X st1 (footprintReadWrite (mResources st1)) False = Inr (True, st2)"
  shows "(invoke_host_function X (mLedgerEntryCxxBufs st2) (mTtlEntryCxxBufs st2) = Some out \<and>
          \<not> success out \<and> \<not> is_internal_error out \<longrightarrow>
            (\<exists>st'. ApplyHelper_apply X st = Inr (False, st') \<and>
               mRes st' = Some
                 (if unat (instructions (mResources st)) < unat (cpu_insns out)
                  then INVOKE_HOST_FUNCTION_RESOURCE_LIMIT_EXCEEDED
                  else if unat (txMemoryLimit (mSorobanConfig st)) < unat (mem_bytes out)
                  then INVOKE_HOST_FUNCTION_RESOURCE_LIMIT_EXCEEDED
                  else INVOKE_HOST_FUNCTION_TRAPPED))) \<and>
         ((invoke_host_function X (mLedgerEntryCxxBufs st2) (mTtlEntryCxxBufs st2) = None \<or>
           (invoke_host_function X (mLedgerEntryCxxBufs st2) (mTtlEntryCxxBufs st2) = Some out \<and>
             \<not> success out \<and> is_internal_error out)) \<longrightarrow>
            ApplyHelper_apply X st = Inl RuntimeError)"
proof -
  obtain o' st3 where i: "invokeHost X st2 = (o', st3)" by (cases "invokeHost X st2")
  have same: "mResources st3 = mResources st" "mSorobanConfig st3 = mSorobanConfig st"
    using addReads_same[OF ro] addReads_same[OF rw] invokeHost_same[OF i]
    by (simp_all add: sameSetup_def)
  have run: "ApplyHelper_apply X st =
               (if \<not> success o'
                then (case failedInvocation st3 o' of Inl ex \<Rightarrow> Inl ex
                      | Inr st4 \<Rightarrow> Inr (False, st4))
                else ApplyHelper_apply X st)"
    using ro rw i
    by (simp add: ApplyHelper_apply_def applyUntilEvents_def split: sum.splits)
  show ?thesis
  proof (intro conjI impI)
    assume h: "invoke_host_function X (mLedgerEntryCxxBufs st2) (mTtlEntryCxxBufs st2) = Some out \<and>
               \<not> success out \<and> \<not> is_internal_error out"
    with i have o: "o' = out" by (simp add: invokeHost_def Let_def)
    from h o same run
    show "\<exists>st'. ApplyHelper_apply X st = Inr (False, st') \<and>
               mRes st' = Some
                 (if unat (instructions (mResources st)) < unat (cpu_insns out)
                  then INVOKE_HOST_FUNCTION_RESOURCE_LIMIT_EXCEEDED
                  else if unat (txMemoryLimit (mSorobanConfig st)) < unat (mem_bytes out)
                  then INVOKE_HOST_FUNCTION_RESOURCE_LIMIT_EXCEEDED
                  else INVOKE_HOST_FUNCTION_TRAPPED)"
      by (simp add: failedInvocation_def)
  next
    assume h: "invoke_host_function X (mLedgerEntryCxxBufs st2) (mTtlEntryCxxBufs st2) = None \<or>
           (invoke_host_function X (mLedgerEntryCxxBufs st2) (mTtlEntryCxxBufs st2) = Some out \<and>
             \<not> success out \<and> is_internal_error out)"
    with i have "\<not> success o' \<and> is_internal_error o'"
      by (auto simp: invokeHost_def Let_def initialOutput_def)
    with run show "ApplyHelper_apply X st = Inl RuntimeError"
      by (simp add: failedInvocation_def)
  qed
qed

theorem failed_invocation_result_code_witness:
  "addReads (exampleExternal (Some failedOutput)) (exampleHelper [] [] []) [] True
     = Inr (True, exampleHelper [] [] []) \<and>
   invoke_host_function (exampleExternal (Some failedOutput)) [] [] = Some failedOutput \<and>
   \<not> success failedOutput \<and> \<not> is_internal_error failedOutput \<and>
   (\<exists>st'. ApplyHelper_apply (exampleExternal (Some failedOutput)) (exampleHelper [] [] [])
            = Inr (False, st') \<and>
          mRes st' = Some INVOKE_HOST_FUNCTION_RESOURCE_LIMIT_EXCEEDED) \<and>
   ApplyHelper_apply (exampleExternal None) (exampleHelper [] [] []) = Inl RuntimeError"
proof -
  have r: "\<And>out b. addReads (exampleExternal out) (exampleHelper [] [] [])
            (if b then footprintReadOnly (mResources (exampleHelper [] [] []))
             else footprintReadWrite (mResources (exampleHelper [] [] []))) b
          = Inr (True, exampleHelper [] [] [])"
    by (simp add: addReads_def exampleHelper_def exampleResources_def)
  have r1: "\<And>out. addReads (exampleExternal out) (exampleHelper [] [] [])
            (footprintReadOnly (mResources (exampleHelper [] [] []))) True
          = Inr (True, exampleHelper [] [] [])"
    using r[of _ True] by simp
  have r2: "\<And>out. addReads (exampleExternal out) (exampleHelper [] [] [])
            (footprintReadWrite (mResources (exampleHelper [] [] []))) False
          = Inr (True, exampleHelper [] [] [])"
    using r[of _ False] by simp
  have b: "mLedgerEntryCxxBufs (exampleHelper [] [] []) = []"
          "mTtlEntryCxxBufs (exampleHelper [] [] []) = []"
    by (simp_all add: exampleHelper_def)
  have f: "\<not> success failedOutput" "\<not> is_internal_error failedOutput"
          "cpu_insns failedOutput = 200"
    by (simp_all add: failedOutput_def initialOutput_def)
  have h: "\<And>out. invoke_host_function (exampleExternal out) [] [] = out"
    by (simp add: exampleExternal_def)
  have i: "instructions (mResources (exampleHelper [] [] [])) = 100"
    by (simp add: exampleHelper_def exampleResources_def)
  show ?thesis
    using failed_invocation_result_code [OF r1 r2, of "Some failedOutput" failedOutput]
          failed_invocation_result_code [OF r1 r2, of None failedOutput]
          b f h i
    by (simp add: addReads_def)
qed

lemma withinLimit_prefixes:
  "withinLimit limit base evs \<longleftrightarrow>
     (\<forall>n. 0 < n \<and> n \<le> length evs \<longrightarrow> eventBytes base (take n evs) \<le> limit)"
proof (induction evs arbitrary: base)
  case Nil
  then show ?case by simp
next
  case (Cons b rest)
  have "(\<forall>n. 0 < n \<and> n \<le> length (b # rest) \<longrightarrow> eventBytes base (take n (b # rest)) \<le> limit) \<longleftrightarrow>
        (eventBytes base [b] \<le> limit \<and>
         (\<forall>n. 0 < n \<and> n \<le> length rest \<longrightarrow> eventBytes base (take (Suc n) (b # rest)) \<le> limit))"
    (is "?L \<longleftrightarrow> ?A \<and> ?B")
  proof
    assume l: ?L
    have "?A" using l[rule_format, of 1] by simp
    moreover have "?B" using l by auto
    ultimately show "?A \<and> ?B" ..
  next
    assume ab: "?A \<and> ?B"
    show ?L
    proof (intro allI impI)
      fix n assume n: "0 < n \<and> n \<le> length (b # rest)"
      show "eventBytes base (take n (b # rest)) \<le> limit"
      proof (cases n)
        case 0 with n show ?thesis by simp
      next
        case (Suc m)
        show ?thesis
        proof (cases m)
          case 0 with Suc ab show ?thesis by simp
        next
          case (Suc k)
          with \<open>n = Suc m\<close> n ab show ?thesis by auto
        qed
      qed
    qed
  qed
  moreover have "\<And>n. eventBytes base (take (Suc n) (b # rest))
                      = eventBytes (base + bufSize b) (take n rest)"
    by (simp add: eventBytes_def add.assoc)
  moreover have "eventBytes base [b] = base + bufSize b" by (simp add: eventBytes_def)
  ultimately show ?case using Cons.IH[of "base + bufSize b"] by simp
qed

lemma ingestEvents_spec:
  "ingestEvents st evs acc = (ok, st', acc') \<Longrightarrow>
     (ok \<longleftrightarrow> withinLimit (txMaxContractEventsSizeBytes (mSorobanConfig st))
               (mEmitEventByte (mMetrics st)) evs) \<and>
     (ok \<longrightarrow> mEmitEventByte (mMetrics st') = eventBytes (mEmitEventByte (mMetrics st)) evs \<and>
            acc' = acc @ evs \<and> mSorobanConfig st' = mSorobanConfig st) \<and>
     (\<not> ok \<longrightarrow> mRes st' = Some INVOKE_HOST_FUNCTION_RESOURCE_LIMIT_EXCEEDED)"
proof (induction evs arbitrary: st acc)
  case Nil
  then show ?case by (auto simp: eventBytes_def)
next
  case (Cons b rest)
  let ?st1 = "st\<lparr>mMetrics := (mMetrics st)\<lparr>mEmitEvent := mEmitEvent (mMetrics st) + 1,
                 mEmitEventByte := mEmitEventByte (mMetrics st) + bufSize b,
                 mMaxEmitEventByte := max (mMaxEmitEventByte (mMetrics st)) (bufSize b)\<rparr>\<rparr>"
  show ?case
  proof (cases "txMaxContractEventsSizeBytes (mSorobanConfig st)
                  < mEmitEventByte (mMetrics st) + bufSize b")
    case True
    with Cons.prems show ?thesis
      by (auto simp: Let_def bufSize_def not_le[symmetric])
  next
    case False
    with Cons.prems have r: "ingestEvents ?st1 rest (acc @ [b]) = (ok, st', acc')"
      by (simp add: Let_def bufSize_def)
    from Cons.IH[OF r] False show ?thesis
      by (simp add: eventBytes_def add.assoc not_less)
  qed
qed

lemma finishApply_spec:
  "finishApply X st out events = (ok, st') \<Longrightarrow>
     (mRes st' = Some INVOKE_HOST_FUNCTION_RESOURCE_LIMIT_EXCEEDED \<longleftrightarrow>
        txMaxContractEventsSizeBytes (mSorobanConfig st)
          < mEmitEventByte (mMetrics st) + bufSize (result_value out)) \<and>
     (mRes st' = Some INVOKE_HOST_FUNCTION_RESOURCE_LIMIT_EXCEEDED \<longrightarrow> \<not> ok)"
  by (auto simp: finishApply_def Let_def bufSize_def setCode_def pushError_def split: if_splits)

lemma applyEvents_spec:
  assumes "applyEvents X st out = (ok, st')"
  shows "(mRes st' = Some INVOKE_HOST_FUNCTION_RESOURCE_LIMIT_EXCEEDED \<longleftrightarrow>
          (\<exists>n. 0 < n \<and> n \<le> length (contract_events out) \<and>
                txMaxContractEventsSizeBytes (mSorobanConfig st)
                  < eventBytes (mEmitEventByte (mMetrics st)) (take n (contract_events out))) \<or>
          txMaxContractEventsSizeBytes (mSorobanConfig st)
            < eventBytes (mEmitEventByte (mMetrics st)) (contract_events out)
                + bufSize (result_value out))
        \<and> (mRes st' = Some INVOKE_HOST_FUNCTION_RESOURCE_LIMIT_EXCEEDED \<longrightarrow> \<not> ok)"
proof -
  obtain ok1 st1 evs where i: "ingestEvents st (contract_events out) [] = (ok1, st1, evs)"
    by (cases "ingestEvents st (contract_events out) []")
  note s = ingestEvents_spec[OF i]
  show ?thesis
  proof (cases ok1)
    case False
    with i assms have "st' = st1" "\<not> ok" by (auto simp: applyEvents_def)
    moreover from False s have "mRes st1 = Some INVOKE_HOST_FUNCTION_RESOURCE_LIMIT_EXCEEDED"
      by simp
    moreover from False s have "\<exists>n. 0 < n \<and> n \<le> length (contract_events out) \<and>
                txMaxContractEventsSizeBytes (mSorobanConfig st)
                  < eventBytes (mEmitEventByte (mMetrics st)) (take n (contract_events out))"
      by (auto simp: withinLimit_prefixes not_le)
    ultimately show ?thesis by blast
  next
    case True
    with i assms have f: "finishApply X st1 out evs = (ok, st')" by (simp add: applyEvents_def)
    from True s have w: "\<not> (\<exists>n. 0 < n \<and> n \<le> length (contract_events out) \<and>
                txMaxContractEventsSizeBytes (mSorobanConfig st)
                  < eventBytes (mEmitEventByte (mMetrics st)) (take n (contract_events out)))"
      by (auto simp: withinLimit_prefixes not_le)
    from True s have e:
      "mEmitEventByte (mMetrics st1)
         = eventBytes (mEmitEventByte (mMetrics st)) (contract_events out)"
      "mSorobanConfig st1 = mSorobanConfig st" by simp_all
    from finishApply_spec[OF f] w e show ?thesis by auto
  qed
qed

text \<open>
  As long as the sizes add up to less than \<open>2 ^ 32\<close> bytes the counter is their sum.
\<close>

lemma eventBytes_no_overflow:
  "sum_list (map length evs) < 2 ^ 32 \<Longrightarrow> unat (eventBytes 0 evs) = sum_list (map length evs)"
proof (induction evs rule: rev_induct)
  case Nil
  then show ?case by (simp add: eventBytes_def)
next
  case (snoc b evs)
  then have ih: "unat (eventBytes 0 evs) = sum_list (map length evs)" by simp
  have "eventBytes 0 (evs @ [b]) = eventBytes 0 evs + of_nat (length b)"
    by (simp add: eventBytes_def bufSize_def)
  then have "unat (eventBytes 0 (evs @ [b]))
               = (unat (eventBytes 0 evs) + length b) mod 2 ^ 32"
    by (simp add: unat_word_ariths unat_of_nat mod_simps)
  with ih snoc.prems show ?case by simp
qed

lemma newApplyHelper_setup:
  "newApplyHelper ltx resources sorobanConfig hotArchive diagnostics resourceExt = Inr h \<Longrightarrow>
     mEmitEventByte (mMetrics h) = 0 \<and> mSorobanConfig h = sorobanConfig \<and>
     mResources h = resources \<and> mLtx h = ltx \<and> mHotArchive h = hotArchive"
  by (auto simp: newApplyHelper_def Let_def newHostFunctionMetrics_def
           split: option.splits if_splits sum.splits)

text \<open>
  C8. An invoke operation that reaches the events fails with resource limit exceeded if and
  only if the event byte counter exceeds \<open>txMaxContractEventsSizeBytes\<close> after one of the
  events, or exceeds it once the size of the return value is added after the last event. The
  counter is the \<open>uint32_t\<close> sum of the buffer sizes, as the source meters it.
\<close>

theorem events_size_limit_enforced_twice:
  assumes "newApplyHelper ltx resources sorobanConfig hotArchive diagnostics resourceExt = Inr h"
      and "applyUntilEvents X h = Inr (True, st1, out)"
  shows "(\<exists>st'. InvokeHostFunctionOpFrame_doApply X True ltx resources sorobanConfig hotArchive
                  diagnostics resourceExt = Inr (False, st') \<and>
                mRes st' = Some INVOKE_HOST_FUNCTION_RESOURCE_LIMIT_EXCEEDED) \<longleftrightarrow>
         (\<exists>n. 0 < n \<and> n \<le> length (contract_events out) \<and>
               txMaxContractEventsSizeBytes sorobanConfig
                 < eventBytes 0 (take n (contract_events out))) \<or>
         txMaxContractEventsSizeBytes sorobanConfig
           < eventBytes 0 (contract_events out) + bufSize (result_value out)"
proof -
  obtain ok st' where e: "applyEvents X st1 out = (ok, st')" by (cases "applyEvents X st1 out")
  have run: "InvokeHostFunctionOpFrame_doApply X True ltx resources sorobanConfig hotArchive
               diagnostics resourceExt = Inr (ok, st')"
    using assms e by (simp add: InvokeHostFunctionOpFrame_doApply_def ApplyHelper_apply_def)
  have "sameSetup h st1" using applyUntilEvents_reaches_events[OF assms(2)] by simp
  with newApplyHelper_setup[OF assms(1)]
  have s: "mEmitEventByte (mMetrics st1) = 0" "mSorobanConfig st1 = sorobanConfig"
    by (simp_all add: sameSetup_def)
  from applyEvents_spec[OF e] s run show ?thesis by auto
qed

lemma example_newApplyHelper:
  "newApplyHelper exampleLtx (exampleResources ro rw) exampleConfig exampleHotArchive False None
     = Inr (exampleHelper ro rw [])"
  by (simp add: newApplyHelper_def exampleHelper_def)

lemma example_reaches_events:
  "\<exists>st1. applyUntilEvents (exampleExternal (Some (successOutput events returnValue)))
            (exampleHelper [] [] [])
          = Inr (True, st1, successOutput events returnValue)"
  by (simp add: applyUntilEvents_def addReads_def exampleHelper_def exampleResources_def
        invokeHost_def exampleExternal_def successOutput_def initialOutput_def Let_def)

theorem events_size_limit_witness:
  "(\<exists>st'. InvokeHostFunctionOpFrame_doApply
            (exampleExternal (Some (successOutput [[1, 2, 3], [4, 5, 6]] [])))
            True exampleLtx (exampleResources [] []) exampleConfig exampleHotArchive False None
          = Inr (False, st') \<and>
        mRes st' = Some INVOKE_HOST_FUNCTION_RESOURCE_LIMIT_EXCEEDED) \<and>
   (\<exists>st'. InvokeHostFunctionOpFrame_doApply
            (exampleExternal (Some (successOutput [[1, 2, 3]] [7, 8, 9])))
            True exampleLtx (exampleResources [] []) exampleConfig exampleHotArchive False None
          = Inr (False, st') \<and>
        mRes st' = Some INVOKE_HOST_FUNCTION_RESOURCE_LIMIT_EXCEEDED)"
proof
  obtain st1 where r:
    "applyUntilEvents (exampleExternal (Some (successOutput [[1, 2, 3], [4, 5, 6]] [])))
       (exampleHelper [] [] [])
     = Inr (True, st1, successOutput [[1, 2, 3], [4, 5, 6]] [])"
    using example_reaches_events by blast
  have "\<exists>n. 0 < n \<and> n \<le> length (contract_events (successOutput [[1, 2, 3], [4, 5, 6]] [])) \<and>
          txMaxContractEventsSizeBytes exampleConfig
            < eventBytes 0 (take n (contract_events (successOutput [[1, 2, 3], [4, 5, 6]] [])))"
    by (rule exI[of _ 2])
       (simp add: successOutput_def initialOutput_def exampleConfig_def eventBytes_def
          bufSize_def)
  then show "\<exists>st'. InvokeHostFunctionOpFrame_doApply
            (exampleExternal (Some (successOutput [[1, 2, 3], [4, 5, 6]] [])))
            True exampleLtx (exampleResources [] []) exampleConfig exampleHotArchive False None
          = Inr (False, st') \<and>
        mRes st' = Some INVOKE_HOST_FUNCTION_RESOURCE_LIMIT_EXCEEDED"
    using events_size_limit_enforced_twice [OF example_newApplyHelper r] by blast
next
  obtain st1 where r:
    "applyUntilEvents (exampleExternal (Some (successOutput [[1, 2, 3]] [7, 8, 9])))
       (exampleHelper [] [] [])
     = Inr (True, st1, successOutput [[1, 2, 3]] [7, 8, 9])"
    using example_reaches_events by blast
  have "txMaxContractEventsSizeBytes exampleConfig
          < eventBytes 0 (contract_events (successOutput [[1, 2, 3]] [7, 8, 9]))
              + bufSize (result_value (successOutput [[1, 2, 3]] [7, 8, 9]))"
    by (simp add: successOutput_def initialOutput_def exampleConfig_def eventBytes_def
          bufSize_def)
  then show "\<exists>st'. InvokeHostFunctionOpFrame_doApply
            (exampleExternal (Some (successOutput [[1, 2, 3]] [7, 8, 9])))
            True exampleLtx (exampleResources [] []) exampleConfig exampleHotArchive False None
          = Inr (False, st') \<and>
        mRes st' = Some INVOKE_HOST_FUNCTION_RESOURCE_LIMIT_EXCEEDED"
    using events_size_limit_enforced_twice [OF example_newApplyHelper r] by blast
qed

lemma isPersistentEntry_soroban:
  "isPersistentEntry lk \<Longrightarrow> isSorobanEntry lk \<and> \<not> isTemporaryEntry lk"
  by (cases lk) auto

lemma archivedEntryDiagnostic_describes:
  "isPersistentEntry lk \<Longrightarrow>
     \<exists>ev. archivedEntryDiagnostic st lk = st\<lparr>mDiagnosticEvents := mDiagnosticEvents st @ [ev]\<rparr> \<and>
          describesKey lk ev"
  by (cases lk) (auto simp: archivedEntryDiagnostic_def pushError_def)

lemma handleArchivedEntry_not_eligible:
  assumes "isPersistentEntry lk"
      and "isReadOnly \<or> checkIfReadWriteEntryIsMarkedForAutorestore st lk i = Inr False \<or>
           \<not> protocolVersionStartsFrom (ledgerVersion (mLtx st))
               FIRST_PROTOCOL_SUPPORTING_PERSISTENT_EVICTION"
  shows "\<exists>ev. handleArchivedEntry X st lk le isReadOnly lu isHot i =
                Inr (False, st\<lparr>mDiagnosticEvents := mDiagnosticEvents st @ [ev],
                               mRes := Some INVOKE_HOST_FUNCTION_ENTRY_ARCHIVED\<rparr>) \<and>
              describesKey lk ev"
proof -
  from archivedEntryDiagnostic_describes[OF assms(1), of st] obtain ev where
    ev: "archivedEntryDiagnostic st lk = st\<lparr>mDiagnosticEvents := mDiagnosticEvents st @ [ev]\<rparr>"
        "describesKey lk ev" by blast
  have "handleArchivedEntry X st lk le isReadOnly lu isHot i =
          Inr (False, setCode (archivedEntryDiagnostic st lk) INVOKE_HOST_FUNCTION_ENTRY_ARCHIVED)"
    using assms(2) by (auto simp: handleArchivedEntry_def)
  with ev show ?thesis by (auto simp: setCode_def)
qed

text \<open>
  The loop of \<open>addReads\<close> at an archived persistent key that is not eligible for autorestore:
  it returns false at this key, and the state it leaves is the state it found with the result
  code \<open>INVOKE_HOST_FUNCTION_ENTRY_ARCHIVED\<close> and one more diagnostic event, which describes
  the key.
\<close>

lemma addReadsLoop_archived_key:
  assumes persistent: "isPersistentEntry lk"
      and archived:
        "(\<exists>ttl le. loadWithoutRecord (mLtx st) (getTTLKey (sha256 X) lk) = Some ttl \<and>
                   \<not> isLive ttl ledgerSeq' \<and> loadWithoutRecord (mLtx st) lk = Some le) \<or>
         (loadWithoutRecord (mLtx st) (getTTLKey (sha256 X) lk) = None \<and>
          protocolVersionStartsFrom (ledgerVersion (mLtx st))
            FIRST_PROTOCOL_SUPPORTING_PERSISTENT_EVICTION \<and>
          (\<exists>e. hotArchiveLoad (mHotArchive st) lk = Some (HOT_ARCHIVE_ARCHIVED e)))"
      and notEligible:
        "isReadOnly \<or> checkIfReadWriteEntryIsMarkedForAutorestore st lk i = Inr False \<or>
         \<not> protocolVersionStartsFrom (ledgerVersion (mLtx st))
             FIRST_PROTOCOL_SUPPORTING_PERSISTENT_EVICTION"
  shows "\<exists>ev. addReadsLoop X isReadOnly ledgerSeq' ledgerVersion' restoredLiveUntilLedger st
                (lk # rest) i =
                Inr (False, st\<lparr>mDiagnosticEvents := mDiagnosticEvents st @ [ev],
                               mRes := Some INVOKE_HOST_FUNCTION_ENTRY_ARCHIVED\<rparr>) \<and>
              describesKey lk ev"
proof -
  note s = isPersistentEntry_soroban[OF persistent]
  from archived obtain le isHot where
    k: "addReadsKey X isReadOnly ledgerSeq' ledgerVersion' restoredLiveUntilLedger st lk i =
          handleArchivedEntry X st lk le isReadOnly restoredLiveUntilLedger isHot i"
    using s persistent by (auto simp: addReadsKey_def Let_def)
  from handleArchivedEntry_not_eligible[OF persistent notEligible, of X le restoredLiveUntilLedger isHot]
  obtain ev where
    h: "handleArchivedEntry X st lk le isReadOnly restoredLiveUntilLedger isHot i =
          Inr (False, st\<lparr>mDiagnosticEvents := mDiagnosticEvents st @ [ev],
                         mRes := Some INVOKE_HOST_FUNCTION_ENTRY_ARCHIVED\<rparr>)"
       "describesKey lk ev" by blast
  with k show ?thesis by auto
qed

text \<open>
  The loop of \<open>addReads\<close> over a footprint, once the keys in front of a key have been read.
\<close>

lemma addReadsLoop_append:
  "addReadsLoop X ro sq v lu st pre i = Inr (True, st1) \<Longrightarrow>
     addReadsLoop X ro sq v lu st (pre @ rest) i
       = addReadsLoop X ro sq v lu st1 rest (i + length pre)"
proof (induction pre arbitrary: st i)
  case Nil
  then show ?case by simp
next
  case (Cons lk pre)
  from Cons.prems obtain st' where
    k: "addReadsKey X ro sq v lu st lk i = Inr (True, st')" and
    r: "addReadsLoop X ro sq v lu st' pre (i + 1) = Inr (True, st1)"
    by (auto split: sum.splits bool.splits prod.splits)
  from Cons.IH[OF r] k show ?case by simp
qed

text \<open>
  The autorestore bitmap that the constructor builds answers, for an index of the read-write
  footprint, whether the resource extension lists the index.
\<close>

lemma markAutorestored_result:
  "markAutorestored v idxs = Inr v' \<Longrightarrow>
     length v' = length v \<and> (\<forall>i < length v. v' ! i = (v ! i \<or> i \<in> set idxs))"
proof (induction idxs arbitrary: v)
  case Nil
  then show ?case by simp
next
  case (Cons index rest)
  from Cons.prems have i: "index < length v" and
    r: "markAutorestored (v[index := True]) rest = Inr v'"
    by (auto split: if_splits)
  from Cons.IH[OF r] i show ?case by (auto simp: nth_list_update)
qed

lemma newApplyHelper_marked:
  assumes "newApplyHelper ltx resources sorobanConfig hotArchive diagnostics resourceExt = Inr st"
      and "i < length (footprintReadWrite resources)"
  shows "checkIfReadWriteEntryIsMarkedForAutorestore st lk i
           = Inr (markedForAutorestore resourceExt i)"
proof (cases resourceExt)
  case None
  with assms(1) show ?thesis
    by (auto simp: newApplyHelper_def checkIfReadWriteEntryIsMarkedForAutorestore_def
          markedForAutorestore_def)
next
  case (Some archivedEntries)
  show ?thesis
  proof (cases "archivedEntries = []")
    case True
    with Some assms(1) show ?thesis
      by (auto simp: newApplyHelper_def checkIfReadWriteEntryIsMarkedForAutorestore_def
            markedForAutorestore_def)
  next
    case False
    with Some assms(1) obtain v where
      m: "markAutorestored (replicate (length (footprintReadWrite resources)) False)
            archivedEntries = Inr v" and
      v: "mAutorestoredEntries st = v"
      by (auto simp: newApplyHelper_def Let_def split: sum.splits)
    from markAutorestored_result[OF m] assms(2)
    have "length v = length (footprintReadWrite resources)" "v ! i = (i \<in> set archivedEntries)"
      by simp_all
    with v assms(2) Some show ?thesis
      by (auto simp: checkIfReadWriteEntryIsMarkedForAutorestore_def markedForAutorestore_def)
  qed
qed

text \<open>
  A footprint read that returns false ends \<open>apply\<close>: the operation fails with the result
  code that the read has set.
\<close>

lemma apply_fails_when_read_fails:
  "addReads X st (footprintReadOnly (mResources st)) True = Inr (False, st1) \<Longrightarrow>
     ApplyHelper_apply X st = Inr (False, st1)"
  "addReads X st (footprintReadOnly (mResources st)) True = Inr (True, st1) \<Longrightarrow>
   addReads X st1 (footprintReadWrite (mResources st1)) False = Inr (False, st2) \<Longrightarrow>
     ApplyHelper_apply X st = Inr (False, st2)"
  by (simp_all add: ApplyHelper_apply_def applyUntilEvents_def)

text \<open>
  \<open>addReads\<close> on a footprint \<open>pre @ lk # post\<close>, from a state with the setup of the state
  \<open>st\<close> that the constructor built: when the keys \<open>pre\<close> have been read and \<open>lk\<close> is an
  archived persistent key that is not eligible for autorestore, the read returns false.
\<close>

lemma addReads_archived_key:
  assumes built: "newApplyHelper ltx resources sorobanConfig hotArchive diagnostics resourceExt
                    = Inr st"
      and same: "sameSetup st st0"
      and pre: "addReads X st0 pre isReadOnly = Inr (True, st1)"
      and index: "isReadOnly \<or> length pre < length (footprintReadWrite resources)"
      and persistent: "isPersistentEntry lk"
      and archived:
        "(\<exists>ttl le. loadWithoutRecord (mLtx st1) (getTTLKey (sha256 X) lk) = Some ttl \<and>
                   \<not> isLive ttl (ledgerSeq ltx) \<and> loadWithoutRecord (mLtx st1) lk = Some le) \<or>
         (loadWithoutRecord (mLtx st1) (getTTLKey (sha256 X) lk) = None \<and>
          protocolVersionStartsFrom (ledgerVersion ltx)
            FIRST_PROTOCOL_SUPPORTING_PERSISTENT_EVICTION \<and>
          (\<exists>e. hotArchiveLoad hotArchive lk = Some (HOT_ARCHIVE_ARCHIVED e)))"
      and notEligible:
        "isReadOnly \<or> \<not> markedForAutorestore resourceExt (length pre) \<or>
         \<not> protocolVersionStartsFrom (ledgerVersion ltx)
             FIRST_PROTOCOL_SUPPORTING_PERSISTENT_EVICTION"
  shows "\<exists>ev. addReads X st0 (pre @ lk # post) isReadOnly =
                Inr (False, st1\<lparr>mDiagnosticEvents := mDiagnosticEvents st1 @ [ev],
                                mRes := Some INVOKE_HOST_FUNCTION_ENTRY_ARCHIVED\<rparr>) \<and>
              describesKey lk ev"
proof -
  note s = newApplyHelper_setup[OF built]
  let ?sq = "ledgerSeq (mLtx st0)" and ?v = "ledgerVersion (mLtx st0)"
  let ?lu = "ledgerSeq (mLtx st0) + minPersistentTTL (mSorobanConfig st0) - 1"
  from pre have loop: "addReadsLoop X isReadOnly ?sq ?v ?lu st0 pre 0 = Inr (True, st1)"
    by (simp add: addReads_def Let_def)
  from addReadsLoop_same[OF loop] same have same1: "sameSetup st st1"
    by (rule sameSetup_trans[rotated])
  from same s have h0: "ledgerSeq (mLtx st0) = ledgerSeq ltx"
    by (simp add: sameSetup_def)
  from same1 s have h1: "ledgerVersion (mLtx st1) = ledgerVersion ltx"
    "mHotArchive st1 = hotArchive" "mAutorestoredEntries st1 = mAutorestoredEntries st"
    by (simp_all add: sameSetup_def)
  have marked: "checkIfReadWriteEntryIsMarkedForAutorestore st1 lk (length pre)
                  = checkIfReadWriteEntryIsMarkedForAutorestore st lk (length pre)"
    by (simp add: checkIfReadWriteEntryIsMarkedForAutorestore_def h1)
  have a: "(\<exists>ttl le. loadWithoutRecord (mLtx st1) (getTTLKey (sha256 X) lk) = Some ttl \<and>
                   \<not> isLive ttl ?sq \<and> loadWithoutRecord (mLtx st1) lk = Some le) \<or>
         (loadWithoutRecord (mLtx st1) (getTTLKey (sha256 X) lk) = None \<and>
          protocolVersionStartsFrom (ledgerVersion (mLtx st1))
            FIRST_PROTOCOL_SUPPORTING_PERSISTENT_EVICTION \<and>
          (\<exists>e. hotArchiveLoad (mHotArchive st1) lk = Some (HOT_ARCHIVE_ARCHIVED e)))"
    using archived by (simp add: h0 h1)
  have n: "isReadOnly \<or>
           checkIfReadWriteEntryIsMarkedForAutorestore st1 lk (0 + length pre) = Inr False \<or>
           \<not> protocolVersionStartsFrom (ledgerVersion (mLtx st1))
               FIRST_PROTOCOL_SUPPORTING_PERSISTENT_EVICTION"
  proof (cases isReadOnly)
    case True
    then show ?thesis by simp
  next
    case False
    with index have "length pre < length (footprintReadWrite resources)" by simp
    from newApplyHelper_marked[OF built this, of lk] notEligible False show ?thesis
      by (auto simp: marked h1)
  qed
  from addReadsLoop_archived_key[OF persistent a n, of ?v ?lu post]
  show ?thesis
    by (simp add: addReads_def Let_def addReadsLoop_append[OF loop])
qed

text \<open>
  C2. An invoke operation whose footprint assembly comes to an archived persistent contract
  key fails with the result code \<open>INVOKE_HOST_FUNCTION_ENTRY_ARCHIVED\<close> when the key is
  read-only, or not marked for autorestore, or the protocol does not support autorestore.
  The assembly comes to the key \<open>lk\<close> of the read-only footprint in the state \<open>st1\<close> when
  \<open>addReads\<close> has read the keys \<open>pre\<close> in front of it, and to the key \<open>lk\<close> of the read-write
  footprint when \<open>addReads\<close> has read the read-only footprint and then the keys in front of
  it. The key is archived in that state when its TTL is in the ledger transaction and expired
  (with the entry itself beside it, as the TTL pairing of the data model requires), or when it
  has no TTL there and the hot archive holds it as archived, which is looked up from the first
  protocol with persistent eviction on. The operation then returns false, and the state it
  leaves is \<open>st1\<close> with the result code and one more diagnostic event, which describes the
  key: the ledger transaction is the one of \<open>st1\<close>, so the key is not restored.
\<close>

theorem archived_key_without_autorestore_fails:
  assumes built: "newApplyHelper ltx resources sorobanConfig hotArchive diagnostics resourceExt
                    = Inr st"
      and reached:
        "(isReadOnly \<and> footprintReadOnly resources = pre @ lk # post \<and>
          addReads X st pre True = Inr (True, st1)) \<or>
         (\<not> isReadOnly \<and> footprintReadWrite resources = pre @ lk # post \<and>
          (\<exists>st0. addReads X st (footprintReadOnly resources) True = Inr (True, st0) \<and>
                 addReads X st0 pre False = Inr (True, st1)))"
      and persistent: "isPersistentEntry lk"
      and archived:
        "(\<exists>ttl le. loadWithoutRecord (mLtx st1) (getTTLKey (sha256 X) lk) = Some ttl \<and>
                   \<not> isLive ttl (ledgerSeq ltx) \<and> loadWithoutRecord (mLtx st1) lk = Some le) \<or>
         (loadWithoutRecord (mLtx st1) (getTTLKey (sha256 X) lk) = None \<and>
          protocolVersionStartsFrom (ledgerVersion ltx)
            FIRST_PROTOCOL_SUPPORTING_PERSISTENT_EVICTION \<and>
          (\<exists>e. hotArchiveLoad hotArchive lk = Some (HOT_ARCHIVE_ARCHIVED e)))"
      and notEligible:
        "isReadOnly \<or> \<not> markedForAutorestore resourceExt (length pre) \<or>
         \<not> protocolVersionStartsFrom (ledgerVersion ltx)
             FIRST_PROTOCOL_SUPPORTING_PERSISTENT_EVICTION"
  shows "\<exists>ev. InvokeHostFunctionOpFrame_doApply X True ltx resources sorobanConfig hotArchive
                diagnostics resourceExt =
                Inr (False, st1\<lparr>mDiagnosticEvents := mDiagnosticEvents st1 @ [ev],
                                mRes := Some INVOKE_HOST_FUNCTION_ENTRY_ARCHIVED\<rparr>) \<and>
              describesKey lk ev"
proof -
  note s = newApplyHelper_setup[OF built]
  have run: "InvokeHostFunctionOpFrame_doApply X True ltx resources sorobanConfig hotArchive
               diagnostics resourceExt = ApplyHelper_apply X st"
    using built by (simp add: InvokeHostFunctionOpFrame_doApply_def)
  show ?thesis
  proof (cases isReadOnly)
    case True
    with reached have fp: "footprintReadOnly resources = pre @ lk # post"
      and pre: "addReads X st pre isReadOnly = Inr (True, st1)" by auto
    from addReads_archived_key[OF built sameSetup_refl pre _ persistent archived notEligible,
           of post] True
    obtain ev where
      r: "addReads X st (pre @ lk # post) True =
            Inr (False, st1\<lparr>mDiagnosticEvents := mDiagnosticEvents st1 @ [ev],
                            mRes := Some INVOKE_HOST_FUNCTION_ENTRY_ARCHIVED\<rparr>)"
         "describesKey lk ev" by auto
    from r(1) fp s have "addReads X st (footprintReadOnly (mResources st)) True =
            Inr (False, st1\<lparr>mDiagnosticEvents := mDiagnosticEvents st1 @ [ev],
                            mRes := Some INVOKE_HOST_FUNCTION_ENTRY_ARCHIVED\<rparr>)" by simp
    from apply_fails_when_read_fails(1)[OF this] r(2) run show ?thesis by auto
  next
    case False
    with reached obtain st0 where fp: "footprintReadWrite resources = pre @ lk # post"
      and ro: "addReads X st (footprintReadOnly resources) True = Inr (True, st0)"
      and pre: "addReads X st0 pre isReadOnly = Inr (True, st1)" by auto
    from addReads_same[OF ro] have same: "sameSetup st st0" .
    from fp have index: "isReadOnly \<or> length pre < length (footprintReadWrite resources)"
      by simp
    from addReads_archived_key[OF built same pre index persistent archived notEligible,
           of post] False
    obtain ev where
      r: "addReads X st0 (pre @ lk # post) False =
            Inr (False, st1\<lparr>mDiagnosticEvents := mDiagnosticEvents st1 @ [ev],
                            mRes := Some INVOKE_HOST_FUNCTION_ENTRY_ARCHIVED\<rparr>)"
         "describesKey lk ev" by auto
    from same s have "mResources st0 = resources" by (simp add: sameSetup_def)
    with r(1) fp have rw: "addReads X st0 (footprintReadWrite (mResources st0)) False =
            Inr (False, st1\<lparr>mDiagnosticEvents := mDiagnosticEvents st1 @ [ev],
                            mRes := Some INVOKE_HOST_FUNCTION_ENTRY_ARCHIVED\<rparr>)" by simp
    from ro s have "addReads X st (footprintReadOnly (mResources st)) True = Inr (True, st0)"
      by simp
    from apply_fails_when_read_fails(2)[OF this rw] r(2) run show ?thesis by auto
  qed
qed

text \<open>
  Two operations on the example ledger at protocol 23. The first has the contract code key of
  the hot archive in its read-only footprint. The second has a live key and then the expired
  data key in its read-write footprint, and marks the first of the two for autorestore and
  not the second. Both fail with \<open>INVOKE_HOST_FUNCTION_ENTRY_ARCHIVED\<close> and leave the ledger
  transaction as it was.
\<close>

lemma example_live_key_read:
  "\<exists>st1. addReads (exampleExternal None) (exampleHelper ro rw autorestored)
            [ContractDataKey 2 4 PERSISTENT] False = Inr (True, st1) \<and>
          mLtx st1 = exampleLtx \<and> mDiagnosticEvents st1 = []"
  by (simp add: addReads_def addReadsKey_def addReadsEntry_def Let_def exampleHelper_def
        exampleLtx_def exampleExternal_def loadWithoutRecord_def findEntry_def
        LedgerEntryKey_def getTTLKey_def expiredData_def expiredDataTTL_def liveData_def
        liveDataTTL_def isLive_def protocolVersionIsBefore_def AUTO_RESTORE_PROTOCOL_VERSION_def
        V_23_def)

theorem archived_key_without_autorestore_witness:
  "(\<exists>ev. InvokeHostFunctionOpFrame_doApply (exampleExternal None) True exampleLtx
            (exampleResources [ContractCodeKey 1] []) exampleConfig exampleHotArchive False None =
          Inr (False, (exampleHelper [ContractCodeKey 1] [] [])
                 \<lparr>mDiagnosticEvents := [ev],
                  mRes := Some INVOKE_HOST_FUNCTION_ENTRY_ARCHIVED\<rparr>) \<and>
        describesKey (ContractCodeKey 1) ev) \<and>
   (\<exists>st1 ev. InvokeHostFunctionOpFrame_doApply (exampleExternal None) True exampleLtx
            (exampleResources [] [ContractDataKey 2 4 PERSISTENT, ContractDataKey 2 3 PERSISTENT])
            exampleConfig exampleHotArchive False (Some [0]) =
          Inr (False, st1\<lparr>mDiagnosticEvents := [ev],
                          mRes := Some INVOKE_HOST_FUNCTION_ENTRY_ARCHIVED\<rparr>) \<and>
        mLtx st1 = exampleLtx \<and> describesKey (ContractDataKey 2 3 PERSISTENT) ev)"
proof
  let ?X = "exampleExternal None"
  let ?k = "ContractCodeKey 1"
  let ?h = "exampleHelper [?k] [] []"
  have built: "newApplyHelper exampleLtx (exampleResources [?k] []) exampleConfig
                 exampleHotArchive False None = Inr ?h"
    by (rule example_newApplyHelper)
  have reached:
    "(True \<and> footprintReadOnly (exampleResources [?k] []) = [] @ ?k # [] \<and>
      addReads ?X ?h [] True = Inr (True, ?h)) \<or>
     (\<not> True \<and> footprintReadWrite (exampleResources [?k] []) = [] @ ?k # [] \<and>
      (\<exists>st0. addReads ?X ?h (footprintReadOnly (exampleResources [?k] [])) True
                = Inr (True, st0) \<and>
             addReads ?X st0 [] False = Inr (True, ?h)))"
    by (simp add: exampleResources_def addReads_def)
  have p: "isPersistentEntry ?k" by simp
  have a: "(\<exists>ttl le. loadWithoutRecord (mLtx ?h) (getTTLKey (sha256 ?X) ?k) = Some ttl \<and>
              \<not> isLive ttl (ledgerSeq exampleLtx) \<and> loadWithoutRecord (mLtx ?h) ?k = Some le) \<or>
           (loadWithoutRecord (mLtx ?h) (getTTLKey (sha256 ?X) ?k) = None \<and>
            protocolVersionStartsFrom (ledgerVersion exampleLtx)
              FIRST_PROTOCOL_SUPPORTING_PERSISTENT_EVICTION \<and>
            (\<exists>e. hotArchiveLoad exampleHotArchive ?k = Some (HOT_ARCHIVE_ARCHIVED e)))"
    by (simp add: exampleHelper_def exampleLtx_def loadWithoutRecord_def findEntry_def
          getTTLKey_def exampleExternal_def LedgerEntryKey_def expiredData_def
          expiredDataTTL_def liveData_def liveDataTTL_def protocolVersionStartsFrom_def
          FIRST_PROTOCOL_SUPPORTING_PERSISTENT_EVICTION_def V_23_def hotArchiveLoad_def
          exampleHotArchive_def archivedCode_def)
  have n: "True \<or> \<not> markedForAutorestore None (length ([] :: LedgerKey list)) \<or>
           \<not> protocolVersionStartsFrom (ledgerVersion exampleLtx)
               FIRST_PROTOCOL_SUPPORTING_PERSISTENT_EVICTION"
    by simp
  have d: "mDiagnosticEvents ?h = []"
    by (simp add: exampleHelper_def)
  show "\<exists>ev. InvokeHostFunctionOpFrame_doApply ?X True exampleLtx
            (exampleResources [?k] []) exampleConfig exampleHotArchive False None =
          Inr (False, ?h\<lparr>mDiagnosticEvents := [ev],
                          mRes := Some INVOKE_HOST_FUNCTION_ENTRY_ARCHIVED\<rparr>) \<and>
        describesKey ?k ev"
    using archived_key_without_autorestore_fails [OF built reached p a n] d by simp
next
  let ?X = "exampleExternal None"
  let ?l = "ContractDataKey 2 4 PERSISTENT"
  let ?k = "ContractDataKey 2 3 PERSISTENT"
  let ?h = "exampleHelper [] [?l, ?k] [True, False]"
  have built: "newApplyHelper exampleLtx (exampleResources [] [?l, ?k]) exampleConfig
                 exampleHotArchive False (Some [0]) = Inr ?h"
    by (simp add: newApplyHelper_def exampleHelper_def exampleResources_def)
  from example_live_key_read[of "[]" "[?l, ?k]" "[True, False]"] obtain st1 where
    pre: "addReads ?X ?h [?l] False = Inr (True, st1)" and
    l: "mLtx st1 = exampleLtx" and d: "mDiagnosticEvents st1 = []" by blast
  have reached:
    "(False \<and> footprintReadOnly (exampleResources [] [?l, ?k]) = [?l] @ ?k # [] \<and>
      addReads ?X ?h [?l] True = Inr (True, st1)) \<or>
     (\<not> False \<and> footprintReadWrite (exampleResources [] [?l, ?k]) = [?l] @ ?k # [] \<and>
      (\<exists>st0. addReads ?X ?h (footprintReadOnly (exampleResources [] [?l, ?k])) True
                = Inr (True, st0) \<and>
             addReads ?X st0 [?l] False = Inr (True, st1)))"
    using pre by (simp add: exampleResources_def addReads_def)
  have p: "isPersistentEntry ?k" by simp
  have a: "(\<exists>ttl le. loadWithoutRecord (mLtx st1) (getTTLKey (sha256 ?X) ?k) = Some ttl \<and>
              \<not> isLive ttl (ledgerSeq exampleLtx) \<and> loadWithoutRecord (mLtx st1) ?k = Some le) \<or>
           (loadWithoutRecord (mLtx st1) (getTTLKey (sha256 ?X) ?k) = None \<and>
            protocolVersionStartsFrom (ledgerVersion exampleLtx)
              FIRST_PROTOCOL_SUPPORTING_PERSISTENT_EVICTION \<and>
            (\<exists>e. hotArchiveLoad exampleHotArchive ?k = Some (HOT_ARCHIVE_ARCHIVED e)))"
    by (simp add: l exampleLtx_def loadWithoutRecord_def findEntry_def
          getTTLKey_def exampleExternal_def LedgerEntryKey_def expiredData_def
          expiredDataTTL_def isLive_def)
  have n: "False \<or> \<not> markedForAutorestore (Some [0]) (length [?l]) \<or>
           \<not> protocolVersionStartsFrom (ledgerVersion exampleLtx)
               FIRST_PROTOCOL_SUPPORTING_PERSISTENT_EVICTION"
    by (simp add: markedForAutorestore_def)
  show "\<exists>st1 ev. InvokeHostFunctionOpFrame_doApply ?X True exampleLtx
            (exampleResources [] [?l, ?k]) exampleConfig exampleHotArchive False (Some [0]) =
          Inr (False, st1\<lparr>mDiagnosticEvents := [ev],
                          mRes := Some INVOKE_HOST_FUNCTION_ENTRY_ARCHIVED\<rparr>) \<and>
        mLtx st1 = exampleLtx \<and> describesKey ?k ev"
    using archived_key_without_autorestore_fails [OF built reached p a n] l d by auto
qed

section \<open>Restoration\<close>

lemma findEntry_putEntry:
  "findEntry (putEntry e es) k = (if k = LedgerEntryKey e then Some e else findEntry es k)"
proof -
  have "find (\<lambda>x. LedgerEntryKey x = k) (filter (\<lambda>x. LedgerEntryKey x \<noteq> LedgerEntryKey e) es)
          = find (\<lambda>x. LedgerEntryKey x = k) es" if "k \<noteq> LedgerEntryKey e"
    using that by (induction es) auto
  then show ?thesis by (auto simp: findEntry_def putEntry_def)
qed

lemma load_restoreFromHotArchive:
  "loadWithoutRecord (fst (restoreFromHotArchive sha ltx e lu)) k =
     (if k = getTTLKey sha (LedgerEntryKey e) then Some (restoredTTLEntry sha ltx e lu)
      else if k = LedgerEntryKey e then Some e
      else loadWithoutRecord ltx k)"
  by (simp add: restoreFromHotArchive_def loadWithoutRecord_def Let_def findEntry_putEntry
        restoredTTLEntry_def LedgerEntryKey_def getTTLKey_def)

lemma load_restoreFromLiveBucketList:
  "loadWithoutRecord (fst (restoreFromLiveBucketList sha ltx e lu)) k =
     (if k = getTTLKey sha (LedgerEntryKey e) then Some (restoredTTLEntry sha ltx e lu)
      else if k = LedgerEntryKey e then Some e
      else loadWithoutRecord ltx k)"
  by (simp add: restoreFromLiveBucketList_def loadWithoutRecord_def Let_def findEntry_putEntry
        restoredTTLEntry_def LedgerEntryKey_def getTTLKey_def)

lemma data_restoredTTLEntry [simp]:
  "data (restoredTTLEntry sha ltx e lu) = TTLEntry (sha (LedgerEntryKey e)) lu"
  by (simp add: restoredTTLEntry_def)

lemma getTTLKey_not_persistent [simp]: "\<not> isPersistentEntry (getTTLKey sha k)"
  by (simp add: getTTLKey_def)

lemma ttlLiveUntil_Some_iff:
  "ttlLiveUntil sha ltx lk = Some lu \<longleftrightarrow>
     (\<exists>e. loadWithoutRecord ltx (getTTLKey sha lk) = Some e \<and> data e = TTLEntry (sha lk) lu)"
proof -
  have "\<And>e. loadWithoutRecord ltx (TTLKey (sha lk)) = Some e \<Longrightarrow> \<exists>l. data e = TTLEntry (sha lk) l"
  proof -
    fix e assume "loadWithoutRecord ltx (TTLKey (sha lk)) = Some e"
    then have "LedgerEntryDataKey (data e) = TTLKey (sha lk)"
      using findEntry_key by (auto simp: loadWithoutRecord_def LedgerEntryKey_def)
    then show "\<exists>l. data e = TTLEntry (sha lk) l" by (cases "data e") auto
  qed
  then show ?thesis
    by (fastforce simp: ttlLiveUntil_def getTTLKey_def split: option.splits LedgerEntryData.splits)
qed

lemma changesOnly_refl [simp]: "changesOnly ks ltx ltx"
  by (simp add: changesOnly_def)

lemma ttlWritesOnly_refl [simp]: "ttlWritesOnly lu ltx ltx"
  by (simp add: ttlWritesOnly_def)

lemma ttlWritesOnly_trans:
  "ttlWritesOnly lu a b \<Longrightarrow> ttlWritesOnly lu b c \<Longrightarrow> ttlWritesOnly lu a c"
  unfolding ttlWritesOnly_def by metis

lemma ttlWritesOnly_target:
  "ttlWritesOnly lu ltx ltx' \<Longrightarrow> ttlLiveUntil sha ltx lk = Some lu \<Longrightarrow>
     ttlLiveUntil sha ltx' lk = Some lu"
  unfolding ttlLiveUntil_Some_iff ttlWritesOnly_def getTTLKey_def by metis

lemma ttlWritesOnly_archived:
  assumes "ttlWritesOnly lu ltx ltx'"
      and "isArchived sha ltx hot lk \<or> ttlLiveUntil sha ltx lk = Some lu"
  shows "isArchived sha ltx' hot lk \<or> ttlLiveUntil sha ltx' lk = Some lu"
proof -
  from assms(1) have h: "ledgerSeq ltx' = ledgerSeq ltx" "ledgerVersion ltx' = ledgerVersion ltx"
    and c: "loadWithoutRecord ltx' (TTLKey (sha lk)) = loadWithoutRecord ltx (TTLKey (sha lk)) \<or>
            (\<exists>e. loadWithoutRecord ltx' (TTLKey (sha lk)) = Some e \<and> data e = TTLEntry (sha lk) lu)"
    by (auto simp: ttlWritesOnly_def)
  from c show ?thesis
  proof
    assume "loadWithoutRecord ltx' (TTLKey (sha lk)) = loadWithoutRecord ltx (TTLKey (sha lk))"
    with assms(2) h show ?thesis
      by (auto simp: isArchived_def ttlLiveUntil_def getTTLKey_def split: option.splits)
  next
    assume "\<exists>e. loadWithoutRecord ltx' (TTLKey (sha lk)) = Some e \<and> data e = TTLEntry (sha lk) lu"
    then show ?thesis by (simp add: ttlLiveUntil_Some_iff getTTLKey_def)
  qed
qed

text \<open>
  A restored entry with key \<open>k\<close> changes the entries under \<open>k\<close> and under the TTL key of \<open>k\<close>,
  and the TTL entry it leaves carries the given \<open>liveUntilLedgerSeq\<close>.
\<close>

lemma restoreFromHotArchive_effect:
  "changesOnly {LedgerEntryKey e, getTTLKey sha (LedgerEntryKey e)} ltx
     (fst (restoreFromHotArchive sha ltx e lu)) \<and>
   ttlLiveUntil sha (fst (restoreFromHotArchive sha ltx e lu)) (LedgerEntryKey e) = Some lu"
  by (simp add: changesOnly_def load_restoreFromHotArchive ttlLiveUntil_def)

lemma restoreFromLiveBucketList_effect:
  "changesOnly {LedgerEntryKey e, getTTLKey sha (LedgerEntryKey e)} ltx
     (fst (restoreFromLiveBucketList sha ltx e lu)) \<and>
   ttlLiveUntil sha (fst (restoreFromLiveBucketList sha ltx e lu)) (LedgerEntryKey e) = Some lu"
  by (simp add: changesOnly_def load_restoreFromLiveBucketList ttlLiveUntil_def)

lemma changesOnly_restore_ttlWritesOnly:
  assumes "changesOnly {k, getTTLKey sha k} ltx ltx'"
      and "ttlLiveUntil sha ltx' k = Some lu"
      and "keyType k \<noteq> TTL"
  shows "ttlWritesOnly lu ltx ltx'"
proof -
  have "loadWithoutRecord ltx' (TTLKey h) = loadWithoutRecord ltx (TTLKey h) \<or>
        (\<exists>e. loadWithoutRecord ltx' (TTLKey h) = Some e \<and> data e = TTLEntry h lu)" for h
  proof (cases "TTLKey h = getTTLKey sha k")
    case True
    with assms(2) show ?thesis by (auto simp: ttlLiveUntil_Some_iff getTTLKey_def)
  next
    case False
    moreover have "TTLKey h \<noteq> k" using assms(3) by auto
    ultimately show ?thesis using assms(1) by (auto simp: changesOnly_def)
  qed
  with assms(1) show ?thesis by (simp add: ttlWritesOnly_def changesOnly_def)
qed

lemma isPersistentEntry_not_TTL: "isPersistentEntry k \<Longrightarrow> keyType k \<noteq> TTL"
  by (cases k) auto

text \<open>The effect of one restored key of the restore operation on the ledger transaction.\<close>

lemma restoreKey_effect:
  assumes r: "restoreKey X resources lu st k hae = Inr (c, st')"
      and src: "hae = None \<or> hotArchiveLoad hot k = hae"
  shows "(c \<noteq> None \<longrightarrow> c = Some RESTORE_FOOTPRINT_RESOURCE_LIMIT_EXCEEDED \<and> rsLtx st' = rsLtx st) \<and>
         (c = None \<longrightarrow> changesOnly {k, getTTLKey (sha256 X) k} (rsLtx st) (rsLtx st') \<and>
                       ttlLiveUntil (sha256 X) (rsLtx st') k = Some lu)"
proof -
  from r obtain entry where
    e: "(case hae of Some (HOT_ARCHIVE_ARCHIVED e) \<Rightarrow> Inr e | Some _ \<Rightarrow> Inl XdrWrongUnionArm
         | None \<Rightarrow> (case loadWithoutRecord (rsLtx st) k of None \<Rightarrow> Inl ReleaseAssertFailure
                    | Some e \<Rightarrow> Inr e)) = Inr entry"
    by (auto simp: restoreKey_def split: sum.splits)
  have key: "LedgerEntryKey entry = k"
  proof (cases hae)
    case None
    with e show ?thesis
      by (auto simp: loadWithoutRecord_def split: option.splits dest: findEntry_key)
  next
    case (Some x)
    with e have "x = HOT_ARCHIVE_ARCHIVED entry"
      by (auto split: HotArchiveBucketEntry.splits)
    with Some src show ?thesis by (auto dest: hotArchiveLoad_key)
  qed
  from r e show ?thesis
    using restoreFromHotArchive_effect[of entry "sha256 X" _ lu]
          restoreFromLiveBucketList_effect[of entry "sha256 X" _ lu]
    by (auto simp: restoreKey_def Let_def key split: if_splits option.splits)
qed

lemma restoreLoop_Cons:
  "restoreLoop X resources hot lu st (k # rest) =
     (if \<not> isArchived (sha256 X) (rsLtx st) hot k
      then restoreLoop X resources hot lu st rest
      else
        (case restoreKey X resources lu st k
                (case loadWithoutRecord (rsLtx st) (getTTLKey (sha256 X) k) of
                   None \<Rightarrow> hotArchiveLoad hot k
                 | Some ttl \<Rightarrow> None) of
           Inl ex \<Rightarrow> Inl ex
         | Inr (Some code, st') \<Rightarrow> Inr (Some code, st')
         | Inr (None, st') \<Rightarrow> restoreLoop X resources hot lu st' rest))"
  by (auto simp: isArchived_def Let_def split: option.splits)

lemmas restoreLoop_unfold =
  restoreLoop_Cons simp_thms if_True if_False sum.case prod.case option.case append_Cons
  append_Nil sum.inject prod.inject option.distinct

lemma restoreKey_in_loop:
  assumes "restoreKey X resources lu st k
             (case loadWithoutRecord (rsLtx st) (getTTLKey (sha256 X) k) of
                None \<Rightarrow> hotArchiveLoad hot k | Some ttl \<Rightarrow> None) = Inr (c, st')"
  shows "(c \<noteq> None \<longrightarrow> c = Some RESTORE_FOOTPRINT_RESOURCE_LIMIT_EXCEEDED \<and> rsLtx st' = rsLtx st) \<and>
         (c = None \<longrightarrow> changesOnly {k, getTTLKey (sha256 X) k} (rsLtx st) (rsLtx st') \<and>
                       ttlLiveUntil (sha256 X) (rsLtx st') k = Some lu)"
  by (rule restoreKey_effect[OF assms, of hot]) (simp split: option.splits)

lemma restoreLoop_ttlWritesOnly:
  "restoreLoop X resources hot lu st keys = Inr (c, st') \<Longrightarrow> allPersistent keys \<Longrightarrow>
     ttlWritesOnly lu (rsLtx st) (rsLtx st') \<and>
     (c \<noteq> None \<longrightarrow> c = Some RESTORE_FOOTPRINT_RESOURCE_LIMIT_EXCEEDED)"
proof (induction keys arbitrary: st)
  case Nil
  then show ?case by simp
next
  case (Cons k rest)
  from Cons.prems(2) have pk: "isPersistentEntry k" and pr: "allPersistent rest"
    by (auto split: if_splits)
  show ?case
  proof (cases "isArchived (sha256 X) (rsLtx st) hot k")
    case False
    with Cons.prems(1) have "restoreLoop X resources hot lu st rest = Inr (c, st')"
      by (simp only: restoreLoop_unfold)
    from Cons.IH[OF this pr] show ?thesis .
  next
    case True
    let ?r = "restoreKey X resources lu st k
                (case loadWithoutRecord (rsLtx st) (getTTLKey (sha256 X) k) of
                   None \<Rightarrow> hotArchiveLoad hot k | Some ttl \<Rightarrow> None)"
    from True Cons.prems(1) obtain c1 st1 where r: "?r = Inr (c1, st1)"
      by (cases ?r) (auto simp only: restoreLoop_unfold)
    note eff = restoreKey_in_loop[OF r]
    show ?thesis
    proof (cases c1)
      case (Some code)
      with True Cons.prems(1) r have "c = Some code" "st' = st1"
        by (simp_all only: restoreLoop_unfold)
      with eff Some show ?thesis by simp
    next
      case None
      with True Cons.prems(1) r have "restoreLoop X resources hot lu st1 rest = Inr (c, st')"
        by (simp only: restoreLoop_unfold)
      from Cons.IH[OF this pr] have
        ih: "ttlWritesOnly lu (rsLtx st1) (rsLtx st')"
            "c \<noteq> None \<longrightarrow> c = Some RESTORE_FOOTPRINT_RESOURCE_LIMIT_EXCEEDED" by simp_all
      from eff None have "ttlWritesOnly lu (rsLtx st) (rsLtx st1)"
        using changesOnly_restore_ttlWritesOnly isPersistentEntry_not_TTL[OF pk] by blast
      with ih show ?thesis by (blast intro: ttlWritesOnly_trans)
    qed
  qed
qed

lemma restoreLoop_restores:
  "restoreLoop X resources hot lu st keys = Inr (None, st') \<Longrightarrow> allPersistent keys \<Longrightarrow>
   lk \<in> set keys \<Longrightarrow>
   isArchived (sha256 X) (rsLtx st) hot lk \<or> ttlLiveUntil (sha256 X) (rsLtx st) lk = Some lu \<Longrightarrow>
     ttlLiveUntil (sha256 X) (rsLtx st') lk = Some lu"
proof (induction keys arbitrary: st)
  case Nil
  then show ?case by simp
next
  case (Cons k rest)
  from Cons.prems(2) have pk: "isPersistentEntry k" and pr: "allPersistent rest"
    by (auto split: if_splits)
  let ?r = "restoreKey X resources lu st k
              (case loadWithoutRecord (rsLtx st) (getTTLKey (sha256 X) k) of
                 None \<Rightarrow> hotArchiveLoad hot k | Some ttl \<Rightarrow> None)"
  obtain st1 where
    step: "restoreLoop X resources hot lu st1 rest = Inr (None, st')"
    and w: "ttlWritesOnly lu (rsLtx st) (rsLtx st1)"
    and restored: "isArchived (sha256 X) (rsLtx st) hot k \<longrightarrow>
                 ttlLiveUntil (sha256 X) (rsLtx st1) k = Some lu"
  proof (cases "isArchived (sha256 X) (rsLtx st) hot k")
    case False
    with Cons.prems(1) have "restoreLoop X resources hot lu st rest = Inr (None, st')"
      by (simp only: restoreLoop_unfold)
    with False that[of st] show ?thesis by simp
  next
    case True
    from True Cons.prems(1) obtain c1 st1 where r: "?r = Inr (c1, st1)"
      by (cases ?r) (auto simp only: restoreLoop_unfold)
    have c1: "c1 = None"
    proof (cases c1)
      case (Some code)
      with True Cons.prems(1) r show ?thesis
        by (simp only: restoreLoop_unfold)
    qed simp
    with True Cons.prems(1) r have l: "restoreLoop X resources hot lu st1 rest = Inr (None, st')"
      by (simp only: restoreLoop_unfold)
    from restoreKey_in_loop[OF r] c1 have
      e: "changesOnly {k, getTTLKey (sha256 X) k} (rsLtx st) (rsLtx st1)"
         "ttlLiveUntil (sha256 X) (rsLtx st1) k = Some lu" by simp_all
    then have "ttlWritesOnly lu (rsLtx st) (rsLtx st1)"
      using changesOnly_restore_ttlWritesOnly isPersistentEntry_not_TTL[OF pk] by blast
    with l e that[of st1] show ?thesis by simp
  qed
  have rest_w: "ttlWritesOnly lu (rsLtx st1) (rsLtx st')"
    using restoreLoop_ttlWritesOnly[OF step pr] by simp
  from ttlWritesOnly_archived[OF w Cons.prems(4)]
  have at1: "isArchived (sha256 X) (rsLtx st1) hot lk \<or>
             ttlLiveUntil (sha256 X) (rsLtx st1) lk = Some lu" .
  show ?case
  proof (cases "lk \<in> set rest")
    case True
    from Cons.IH[OF step pr True at1] show ?thesis .
  next
    case False
    with Cons.prems(3) have lk: "lk = k" by simp
    have "ttlLiveUntil (sha256 X) (rsLtx st1) k = Some lu"
    proof (cases "isArchived (sha256 X) (rsLtx st) hot k")
      case True
      with restored show ?thesis by simp
    next
      case False
      with Cons.prems(4) lk have "ttlLiveUntil (sha256 X) (rsLtx st) k = Some lu" by simp
      with w show ?thesis by (rule ttlWritesOnly_target)
    qed
    with rest_w lk show ?thesis by (simp add: ttlWritesOnly_target)
  qed
qed

lemma changesOnly_load:
  "changesOnly ks ltx ltx' \<Longrightarrow> k \<notin> ks \<Longrightarrow> loadWithoutRecord ltx' k = loadWithoutRecord ltx k"
  by (auto simp: changesOnly_def)

lemma restoreLoop_skips_live_key:
  assumes "allPersistent pre"
      and "loadWithoutRecord (rsLtx st) (getTTLKey (sha256 X) lk) = Some ttl"
      and "isLive ttl (ledgerSeq (rsLtx st))"
  shows "restoreLoop X resources hot lu st (pre @ lk # post) =
         restoreLoop X resources hot lu st (pre @ post)"
  using assms
proof (induction pre arbitrary: st)
  case Nil
  then have "\<not> isArchived (sha256 X) (rsLtx st) hot lk" by (simp add: isArchived_def)
  then show ?case by (simp only: restoreLoop_unfold)
next
  case (Cons k rest)
  from Cons.prems(1) have pk: "isPersistentEntry k" and pr: "allPersistent rest"
    by (auto split: if_splits)
  let ?r = "restoreKey X resources lu st k
              (case loadWithoutRecord (rsLtx st) (getTTLKey (sha256 X) k) of
                 None \<Rightarrow> hotArchiveLoad hot k | Some ttl \<Rightarrow> None)"
  show ?case
  proof (cases "isArchived (sha256 X) (rsLtx st) hot k")
    case False
    with Cons.IH[OF pr Cons.prems(2,3)] show ?thesis
      by (simp only: restoreLoop_unfold)
  next
    case True
    show ?thesis
    proof (cases ?r)
      case (Inl ex)
      with True show ?thesis by (simp only: restoreLoop_unfold)
    next
      case (Inr p)
      obtain c1 st1 where p: "p = (c1, st1)" by (cases p)
      show ?thesis
      proof (cases c1)
        case (Some code)
        with True Inr p show ?thesis
          by (simp only: restoreLoop_unfold)
      next
        case None
        from Inr p have r: "?r = Inr (c1, st1)" by simp
        from restoreKey_in_loop[OF r] None have
          e: "changesOnly {k, getTTLKey (sha256 X) k} (rsLtx st) (rsLtx st1)" by simp
        have ne1: "getTTLKey (sha256 X) lk \<noteq> k"
          using pk by (auto simp: getTTLKey_def)
        have ne2: "getTTLKey (sha256 X) lk \<noteq> getTTLKey (sha256 X) k"
        proof
          assume "getTTLKey (sha256 X) lk = getTTLKey (sha256 X) k"
          with Cons.prems(2,3) have "\<not> isArchived (sha256 X) (rsLtx st) hot k"
            by (simp add: isArchived_def)
          with True show False by simp
        qed
        have l: "loadWithoutRecord (rsLtx st1) (getTTLKey (sha256 X) lk) = Some ttl"
          using changesOnly_load[OF e, of "getTTLKey (sha256 X) lk"] ne1 ne2 Cons.prems(2)
          by simp
        have s: "isLive ttl (ledgerSeq (rsLtx st1))"
          using e Cons.prems(3) by (simp add: changesOnly_def)
        from Cons.IH[OF pr l s] True r None show ?thesis
          by (simp only: restoreLoop_unfold)
      qed
    qed
  qed
qed

lemma meterDiskReadResource_ltx:
  "meterDiskReadResource st lk ks es = (ok, st') \<Longrightarrow> mLtx st' = mLtx st"
  by (auto simp: meterDiskReadResource_def Let_def setCode_def pushError_def split: if_splits)

lemma addReadsEntry_ltx:
  assumes "addReadsEntry X st lk ks ttl live v = Inr (ok, st')"
  shows "mLtx st' = mLtx st"
proof -
  have m: "\<And>s es ok1 st1. meterDiskReadResource s lk ks es = (ok1, st1) \<Longrightarrow> mLtx st1 = mLtx s"
    by (rule meterDiskReadResource_ltx)
  show ?thesis using assms
    by (auto simp: addReadsEntry_def Let_def setCode_def
             split: sum.splits option.splits if_splits prod.splits dest!: m)
qed

text \<open>The effect of \<open>handleArchivedEntry\<close> on the ledger transaction.\<close>

lemma handleArchivedEntry_effect:
  assumes h: "handleArchivedEntry X st lk le ro lu isHot i = Inr (ok, st')"
      and key: "LedgerEntryKey le = lk"
  shows "(\<not> ok \<longrightarrow> mLtx st' = mLtx st) \<and>
         (ok \<longrightarrow> changesOnly {lk, getTTLKey (sha256 X) lk} (mLtx st) (mLtx st') \<and>
                ttlLiveUntil (sha256 X) (mLtx st') lk = Some lu)"
proof -
  have m: "\<And>ks es ok1 st1. meterDiskReadResource st lk ks es = (ok1, st1) \<Longrightarrow> mLtx st1 = mLtx st"
    by (rule meterDiskReadResource_ltx)
  have d: "mLtx (archivedEntryDiagnostic st lk) = mLtx st"
    by (simp add: archivedEntryDiagnostic_def pushError_def split: LedgerKey.splits)
  show ?thesis using h d
    using restoreFromHotArchive_effect[of le "sha256 X" "mLtx st" lu]
          restoreFromLiveBucketList_effect[of le "sha256 X" "mLtx st" lu]
    by (auto simp: handleArchivedEntry_def Let_def setCode_def key
             split: sum.splits bool.splits if_splits prod.splits dest!: m)
qed

lemma soroban_not_temporary: "isSorobanEntry lk \<Longrightarrow> \<not> isTemporaryEntry lk \<Longrightarrow> isPersistentEntry lk"
  by (cases lk) (auto, metis ContractDataDurability.exhaust)

text \<open>
  The loop body of \<open>addReads\<close> either goes through \<open>addReadsEntry\<close>, or through
  \<open>handleArchivedEntry\<close> with an entry stored under the key, which is persistent then, or
  throws.
\<close>

lemma addReadsKey_cases:
  "(\<exists>ttl live. addReadsKey X ro sq v lu st lk i =
       addReadsEntry X st lk (of_nat (xdr_size_key X lk)) ttl live v) \<or>
   (\<exists>le isHot. addReadsKey X ro sq v lu st lk i = handleArchivedEntry X st lk le ro lu isHot i \<and>
       LedgerEntryKey le = lk \<and> isPersistentEntry lk) \<or>
   (\<exists>ex. addReadsKey X ro sq v lu st lk i = Inl ex)"
proof (cases "isSorobanEntry lk")
  case False
  then show ?thesis by (auto simp: addReadsKey_def Let_def)
next
  case sor: True
  show ?thesis
  proof (cases "loadWithoutRecord (mLtx st) (getTTLKey (sha256 X) lk)")
    case None
    show ?thesis
    proof (cases "isPersistentEntry lk \<and>
                  protocolVersionStartsFrom (ledgerVersion (mLtx st))
                    FIRST_PROTOCOL_SUPPORTING_PERSISTENT_EVICTION")
      case False
      with sor None show ?thesis by (auto simp: addReadsKey_def Let_def)
    next
      case True
      show ?thesis
      proof (cases "hotArchiveLoad (mHotArchive st) lk")
        case None
        with sor \<open>loadWithoutRecord (mLtx st) (getTTLKey (sha256 X) lk) = None\<close> True
        show ?thesis by (auto simp: addReadsKey_def Let_def)
      next
        case (Some hae)
        show ?thesis
        proof (cases hae)
          case (HOT_ARCHIVE_ARCHIVED e)
          with Some have "LedgerEntryKey e = lk" by (auto dest: hotArchiveLoad_key)
          moreover have "addReadsKey X ro sq v lu st lk i =
                           handleArchivedEntry X st lk e ro lu True i"
            using sor None True Some HOT_ARCHIVE_ARCHIVED by (simp add: addReadsKey_def Let_def)
          ultimately show ?thesis using True by blast
        next
          case (HOT_ARCHIVE_LIVE k)
          with sor None True Some show ?thesis by (simp add: addReadsKey_def Let_def)
        next
          case HOT_ARCHIVE_METAENTRY
          with sor None True Some show ?thesis by (simp add: addReadsKey_def Let_def)
        qed
      qed
    qed
  next
    case (Some ttl)
    show ?thesis
    proof (cases "\<not> isLive ttl sq \<and> \<not> isTemporaryEntry lk")
      case False
      with sor Some show ?thesis by (auto simp: addReadsKey_def Let_def)
    next
      case True
      with sor have p: "isPersistentEntry lk" by (simp add: soroban_not_temporary)
      show ?thesis
      proof (cases "loadWithoutRecord (mLtx st) lk")
        case None
        with sor Some True show ?thesis by (simp add: addReadsKey_def Let_def)
      next
        case (Some le)
        then have "LedgerEntryKey le = lk"
          by (auto simp: loadWithoutRecord_def dest: findEntry_key)
        moreover have "addReadsKey X ro sq v lu st lk i =
                         handleArchivedEntry X st lk le ro lu False i"
          using sor \<open>loadWithoutRecord (mLtx st) (getTTLKey (sha256 X) lk) = Some ttl\<close> True Some
          by (simp add: addReadsKey_def Let_def)
        ultimately show ?thesis using p by blast
      qed
    qed
  qed
qed

lemma addReadsKey_effect:
  assumes a: "addReadsKey X ro sq v lu st lk i = Inr (ok, st')"
  shows "mLtx st' = mLtx st \<or>
         (ok \<and> isPersistentEntry lk \<and>
          changesOnly {lk, getTTLKey (sha256 X) lk} (mLtx st) (mLtx st') \<and>
          ttlLiveUntil (sha256 X) (mLtx st') lk = Some lu)"
  using addReadsKey_cases[of X ro sq v lu st lk i]
proof (elim disjE exE conjE)
  fix ttl live
  assume "addReadsKey X ro sq v lu st lk i =
            addReadsEntry X st lk (of_nat (xdr_size_key X lk)) ttl live v"
  with a show ?thesis by (auto dest: addReadsEntry_ltx)
next
  fix le isHot
  assume h: "addReadsKey X ro sq v lu st lk i = handleArchivedEntry X st lk le ro lu isHot i"
     and k: "LedgerEntryKey le = lk" and p: "isPersistentEntry lk"
  from h a have "handleArchivedEntry X st lk le ro lu isHot i = Inr (ok, st')" by simp
  from handleArchivedEntry_effect[OF this k] p show ?thesis by (cases ok) simp_all
next
  fix ex assume "addReadsKey X ro sq v lu st lk i = Inl ex"
  with a show ?thesis by simp
qed

lemma addReadsKey_archived:
  assumes p: "isPersistentEntry lk"
      and ar: "isArchived (sha256 X) (mLtx st) (mHotArchive st) lk"
  shows "(\<exists>le isHot. addReadsKey X ro (ledgerSeq (mLtx st)) v lu st lk i =
              handleArchivedEntry X st lk le ro lu isHot i \<and> LedgerEntryKey le = lk) \<or>
         (\<exists>ex. addReadsKey X ro (ledgerSeq (mLtx st)) v lu st lk i = Inl ex)"
proof -
  note s = isPersistentEntry_soroban[OF p]
  show ?thesis
  proof (cases "loadWithoutRecord (mLtx st) (getTTLKey (sha256 X) lk)")
    case None
    with ar have v23: "protocolVersionStartsFrom (ledgerVersion (mLtx st))
                         FIRST_PROTOCOL_SUPPORTING_PERSISTENT_EVICTION"
      and "hotArchiveLoad (mHotArchive st) lk \<noteq> None" by (simp_all add: isArchived_def)
    then obtain hae where hae: "hotArchiveLoad (mHotArchive st) lk = Some hae" by auto
    show ?thesis
    proof (cases hae)
      case (HOT_ARCHIVE_ARCHIVED e)
      with hae have "LedgerEntryKey e = lk" by (auto dest: hotArchiveLoad_key)
      moreover have "addReadsKey X ro (ledgerSeq (mLtx st)) v lu st lk i =
                       handleArchivedEntry X st lk e ro lu True i"
        using s p None v23 hae HOT_ARCHIVE_ARCHIVED by (simp add: addReadsKey_def Let_def)
      ultimately show ?thesis by blast
    next
      case (HOT_ARCHIVE_LIVE k)
      with s p None v23 hae show ?thesis by (simp add: addReadsKey_def Let_def)
    next
      case HOT_ARCHIVE_METAENTRY
      with s p None v23 hae show ?thesis by (simp add: addReadsKey_def Let_def)
    qed
  next
    case (Some ttl)
    with ar have ex: "\<not> isLive ttl (ledgerSeq (mLtx st))" by (simp add: isArchived_def)
    show ?thesis
    proof (cases "loadWithoutRecord (mLtx st) lk")
      case None
      with s Some ex show ?thesis by (simp add: addReadsKey_def Let_def)
    next
      case le: (Some le)
      then have "LedgerEntryKey le = lk"
        by (auto simp: loadWithoutRecord_def dest: findEntry_key)
      moreover have "addReadsKey X ro (ledgerSeq (mLtx st)) v lu st lk i =
                       handleArchivedEntry X st lk le ro lu False i"
        using s Some ex le by (simp add: addReadsKey_def Let_def)
      ultimately show ?thesis by blast
    qed
  qed
qed

lemma addReadsKey_restores:
  assumes a: "addReadsKey X ro (ledgerSeq (mLtx st)) v lu st lk i = Inr (True, st')"
      and p: "isPersistentEntry lk"
      and ar: "isArchived (sha256 X) (mLtx st) (mHotArchive st) lk"
  shows "ttlLiveUntil (sha256 X) (mLtx st') lk = Some lu"
proof -
  from addReadsKey_archived[OF p ar, of ro v lu i] a obtain le isHot where
    "handleArchivedEntry X st lk le ro lu isHot i = Inr (True, st')" "LedgerEntryKey le = lk"
    by auto
  from handleArchivedEntry_effect[OF this] show ?thesis by simp
qed

lemma addReadsLoop_ttlWritesOnly:
  "addReadsLoop X ro sq v lu st keys i = Inr (ok, st') \<Longrightarrow>
     ttlWritesOnly lu (mLtx st) (mLtx st')"
proof (induction keys arbitrary: st i)
  case Nil
  then show ?case by simp
next
  case (Cons k rest)
  from Cons.prems obtain ok1 st1 where
    k: "addReadsKey X ro sq v lu st k i = Inr (ok1, st1)"
    by (auto split: sum.splits)
  have w: "ttlWritesOnly lu (mLtx st) (mLtx st1)"
    using addReadsKey_effect[OF k] changesOnly_restore_ttlWritesOnly isPersistentEntry_not_TTL
    by fastforce
  show ?case
  proof (cases ok1)
    case False
    with Cons.prems k have "st' = st1" by simp
    with w show ?thesis by simp
  next
    case True
    with Cons.prems k have "addReadsLoop X ro sq v lu st1 rest (i + 1) = Inr (ok, st')" by simp
    from Cons.IH[OF this] w show ?thesis by (blast intro: ttlWritesOnly_trans)
  qed
qed

lemma addReadsLoop_restores:
  "addReadsLoop X ro (ledgerSeq (mLtx st)) v lu st keys i = Inr (True, st') \<Longrightarrow>
   lk \<in> set keys \<Longrightarrow> isPersistentEntry lk \<Longrightarrow>
   isArchived (sha256 X) (mLtx st) (mHotArchive st) lk \<or>
     ttlLiveUntil (sha256 X) (mLtx st) lk = Some lu \<Longrightarrow>
   ttlLiveUntil (sha256 X) (mLtx st') lk = Some lu"
proof (induction keys arbitrary: st i)
  case Nil
  then show ?case by simp
next
  case (Cons k rest)
  from Cons.prems(1) obtain ok1 st1 where
    k0: "addReadsKey X ro (ledgerSeq (mLtx st)) v lu st k i = Inr (ok1, st1)"
    by (auto split: sum.splits)
  with Cons.prems(1) have ok1: "ok1" by (cases ok1) auto
  with k0 have k: "addReadsKey X ro (ledgerSeq (mLtx st)) v lu st k i = Inr (True, st1)" by simp
  with Cons.prems(1) have
    l: "addReadsLoop X ro (ledgerSeq (mLtx st)) v lu st1 rest (i + 1) = Inr (True, st')" by simp
  have same: "sameSetup st st1" using addReadsKey_same[OF k] .
  then have sq: "ledgerSeq (mLtx st1) = ledgerSeq (mLtx st)"
    and hot: "mHotArchive st1 = mHotArchive st" by (simp_all add: sameSetup_def)
  have w: "ttlWritesOnly lu (mLtx st) (mLtx st1)"
    using addReadsKey_effect[OF k] changesOnly_restore_ttlWritesOnly isPersistentEntry_not_TTL
    by fastforce
  have rest_w: "ttlWritesOnly lu (mLtx st1) (mLtx st')"
    using addReadsLoop_ttlWritesOnly[OF l] .
  from ttlWritesOnly_archived[OF w Cons.prems(4)] hot
  have at1: "isArchived (sha256 X) (mLtx st1) (mHotArchive st1) lk \<or>
             ttlLiveUntil (sha256 X) (mLtx st1) lk = Some lu" by simp
  show ?case
  proof (cases "lk \<in> set rest")
    case True
    from l sq have "addReadsLoop X ro (ledgerSeq (mLtx st1)) v lu st1 rest (i + 1) = Inr (True, st')"
      by simp
    from Cons.IH[OF this True Cons.prems(3) at1] show ?thesis .
  next
    case False
    with Cons.prems(2) have lk: "lk = k" by simp
    have "ttlLiveUntil (sha256 X) (mLtx st1) lk = Some lu"
    proof (cases "isArchived (sha256 X) (mLtx st) (mHotArchive st) lk")
      case True
      from addReadsKey_restores[OF k[folded lk] Cons.prems(3) True] show ?thesis .
    next
      case False
      with Cons.prems(4) have "ttlLiveUntil (sha256 X) (mLtx st) lk = Some lu" by simp
      with w show ?thesis by (rule ttlWritesOnly_target)
    qed
    with rest_w show ?thesis by (rule ttlWritesOnly_target)
  qed
qed

text \<open>
  C4. A valid restore operation, and a footprint read of an invoke operation, change the TTL
  entries of the ledger transaction only by writing \<open>liveUntilLedgerSeq\<close> = ledger sequence
  plus \<open>minPersistentTTL\<close> minus one, in \<open>uint32_t\<close> arithmetic as in the source. When the
  loop of the restore operation runs to its end, and when the footprint read succeeds, every
  persistent key of the footprint that was archived at the start (expired in the live state,
  or in the hot archive) has a TTL entry with this value.
\<close>

theorem restored_ttl_is_minimum_persistent_ttl:
  "(doCheckValidForSoroban resources = Inr () \<and>
    doApply X True resources sorobanConfig hotArchive ltx = Inr (ok, code, st) \<longrightarrow>
      ttlWritesOnly (ledgerSeq ltx + minPersistentTTL sorobanConfig - 1) ltx (rsLtx st) \<and>
      (code \<noteq> RESTORE_FOOTPRINT_RESOURCE_LIMIT_EXCEEDED \<and>
       lk \<in> set (footprintReadWrite resources) \<and>
       isArchived (sha256 X) ltx hotArchive lk \<longrightarrow>
         ttlLiveUntil (sha256 X) (rsLtx st) lk
           = Some (ledgerSeq ltx + minPersistentTTL sorobanConfig - 1))) \<and>
   (addReads X helper keys isReadOnly = Inr (ok', helper') \<longrightarrow>
      ttlWritesOnly (ledgerSeq (mLtx helper) + minPersistentTTL (mSorobanConfig helper) - 1)
        (mLtx helper) (mLtx helper') \<and>
      (ok' \<and> lk' \<in> set keys \<and> isPersistentEntry lk' \<and>
       isArchived (sha256 X) (mLtx helper) (mHotArchive helper) lk' \<longrightarrow>
         ttlLiveUntil (sha256 X) (mLtx helper') lk'
           = Some (ledgerSeq (mLtx helper) + minPersistentTTL (mSorobanConfig helper) - 1)))"
proof (intro conjI impI)
  let ?lu = "ledgerSeq ltx + minPersistentTTL sorobanConfig - 1"
  let ?st0 = "\<lparr>rsLtx = ltx, rsLedgerReadByte = 0, rsLedgerWriteByte = 0,
               rustEntryRentChanges = [], rsDiagnosticEvents = []\<rparr>"
  assume a: "doCheckValidForSoroban resources = Inr () \<and>
    doApply X True resources sorobanConfig hotArchive ltx = Inr (ok, code, st)"
  then have p: "allPersistent (footprintReadWrite resources)"
    by (auto simp: doCheckValidForSoroban_def split: if_splits)
  from a obtain c where
    l: "restoreLoop X resources hotArchive ?lu ?st0 (footprintReadWrite resources) = Inr (c, st)"
    and c: "c = None \<or> c = Some code"
    by (auto simp: doApply_def Let_def split: sum.splits option.splits if_splits)
  note w = restoreLoop_ttlWritesOnly[OF l p]
  from w show "ttlWritesOnly ?lu ltx (rsLtx st)" by simp
  assume b: "code \<noteq> RESTORE_FOOTPRINT_RESOURCE_LIMIT_EXCEEDED \<and>
    lk \<in> set (footprintReadWrite resources) \<and> isArchived (sha256 X) ltx hotArchive lk"
  with w c have "c = None" by auto
  with l have "restoreLoop X resources hotArchive ?lu ?st0 (footprintReadWrite resources)
                 = Inr (None, st)" by simp
  from restoreLoop_restores[OF this p, of lk] b
  show "ttlLiveUntil (sha256 X) (rsLtx st) lk = Some ?lu" by simp
next
  let ?lu = "ledgerSeq (mLtx helper) + minPersistentTTL (mSorobanConfig helper) - 1"
  assume a: "addReads X helper keys isReadOnly = Inr (ok', helper')"
  then have l: "addReadsLoop X isReadOnly (ledgerSeq (mLtx helper)) (ledgerVersion (mLtx helper))
               ?lu helper keys 0 = Inr (ok', helper')"
    by (simp add: addReads_def Let_def)
  from addReadsLoop_ttlWritesOnly[OF l]
  show "ttlWritesOnly ?lu (mLtx helper) (mLtx helper')" .
  assume b: "ok' \<and> lk' \<in> set keys \<and> isPersistentEntry lk' \<and>
    isArchived (sha256 X) (mLtx helper) (mHotArchive helper) lk'"
  with l have "addReadsLoop X isReadOnly (ledgerSeq (mLtx helper)) (ledgerVersion (mLtx helper))
               ?lu helper keys 0 = Inr (True, helper')" by simp
  from addReadsLoop_restores[OF this, of lk'] b
  show "ttlLiveUntil (sha256 X) (mLtx helper') lk' = Some ?lu" by simp
qed

text \<open>
  C6. In a restore operation whose footprint holds persistent keys only, a key whose TTL
  entry is in the live state and live at the current ledger sequence changes nothing: the
  operation gives the same result, with the same ledger transaction, the same byte counters,
  the same rent changes and the same diagnostic events, as it gives without the key in its
  footprint.
\<close>

theorem restore_of_live_key_is_noop:
  assumes "allPersistent pre"
      and "loadWithoutRecord ltx (getTTLKey (sha256 X) lk) = Some ttl"
      and "isLive ttl (ledgerSeq ltx)"
  shows "doApply X tracker (resources\<lparr>footprintReadWrite := pre @ lk # post\<rparr>) sorobanConfig
           hotArchive ltx =
         doApply X tracker (resources\<lparr>footprintReadWrite := pre @ post\<rparr>) sorobanConfig
           hotArchive ltx"
proof -
  have key: "\<And>a st k hae lu. restoreKey X (resources\<lparr>footprintReadWrite := a\<rparr>) lu st k hae
                 = restoreKey X resources lu st k hae"
    by (simp add: restoreKey_def Let_def split: sum.splits)
  have loop: "\<And>a st lu keys. restoreLoop X (resources\<lparr>footprintReadWrite := a\<rparr>) hotArchive lu st keys
                 = restoreLoop X resources hotArchive lu st keys"
  proof -
    fix a st lu keys
    show "restoreLoop X (resources\<lparr>footprintReadWrite := a\<rparr>) hotArchive lu st keys
            = restoreLoop X resources hotArchive lu st keys"
      by (induction keys arbitrary: st) (simp_all add: key Let_def split: option.splits sum.splits)
  qed
  let ?st0 = "\<lparr>rsLtx = ltx, rsLedgerReadByte = 0, rsLedgerWriteByte = 0,
               rustEntryRentChanges = [], rsDiagnosticEvents = []\<rparr>"
  have "restoreLoop X resources hotArchive (ledgerSeq ltx + minPersistentTTL sorobanConfig - 1)
          ?st0 (pre @ lk # post) =
        restoreLoop X resources hotArchive (ledgerSeq ltx + minPersistentTTL sorobanConfig - 1)
          ?st0 (pre @ post)"
    by (rule restoreLoop_skips_live_key[OF assms(1), of _ _ _ ttl]) (simp_all add: assms)
  then show ?thesis
    by (simp add: doApply_def loop)
qed

lemmas example_defs =
  exampleExternal_def exampleLtx_def exampleHotArchive_def exampleConfig_def
  exampleResources_def exampleHelper_def archivedCode_def expiredData_def expiredDataTTL_def
  liveData_def liveDataTTL_def

lemmas store_defs =
  loadWithoutRecord_def findEntry_def hotArchiveLoad_def LedgerEntryKey_def getTTLKey_def
  isLive_def protocolVersionStartsFrom_def protocolVersionIsBefore_def
  FIRST_PROTOCOL_SUPPORTING_PERSISTENT_EVICTION_def AUTO_RESTORE_PROTOCOL_VERSION_def
  V_23_def V_24_def

lemma example_restore_succeeds:
  "\<exists>st. doApply (exampleExternal None) True
          (exampleResources [] [ContractCodeKey 1, ContractDataKey 2 3 PERSISTENT])
          exampleConfig exampleHotArchive exampleLtx
        = Inr (True, RESTORE_FOOTPRINT_SUCCESS, st)"
  by (simp add: doApply_def restoreKey_def Let_def example_defs store_defs xdr_size_def
        isContractCodeEntry_def restoreFromHotArchive_def restoreFromLiveBucketList_def
        restoredTTLEntry_def putEntry_def eraseEntry_def)

lemma example_autorestore_succeeds:
  "\<exists>h'. addReads (exampleExternal None)
          (exampleHelper [] [ContractDataKey 2 3 PERSISTENT] [True])
          [ContractDataKey 2 3 PERSISTENT] False = Inr (True, h')"
  by (simp add: addReads_def addReadsKey_def handleArchivedEntry_def Let_def example_defs
        store_defs checkIfReadWriteEntryIsMarkedForAutorestore_def meterDiskReadResource_def
        noteDiskReadEntry_def newHostFunctionMetrics_def isContractCodeEntry_def
        restoreFromLiveBucketList_def restoredTTLEntry_def putEntry_def)

theorem restored_ttl_witness:
  "(\<exists>st. doApply (exampleExternal None) True
           (exampleResources [] [ContractCodeKey 1, ContractDataKey 2 3 PERSISTENT])
           exampleConfig exampleHotArchive exampleLtx
         = Inr (True, RESTORE_FOOTPRINT_SUCCESS, st) \<and>
        ttlLiveUntil exampleSha (rsLtx st) (ContractCodeKey 1) = Some 115 \<and>
        ttlLiveUntil exampleSha (rsLtx st) (ContractDataKey 2 3 PERSISTENT) = Some 115) \<and>
   (\<exists>h'. addReads (exampleExternal None)
           (exampleHelper [] [ContractDataKey 2 3 PERSISTENT] [True])
           [ContractDataKey 2 3 PERSISTENT] False = Inr (True, h') \<and>
        ttlLiveUntil exampleSha (mLtx h') (ContractDataKey 2 3 PERSISTENT) = Some 115)"
proof
  let ?X = "exampleExternal None"
  let ?r = "exampleResources [] [ContractCodeKey 1, ContractDataKey 2 3 PERSISTENT]"
  obtain st where
    d: "doApply ?X True ?r exampleConfig exampleHotArchive exampleLtx
          = Inr (True, RESTORE_FOOTPRINT_SUCCESS, st)"
    using example_restore_succeeds by blast
  have v: "doCheckValidForSoroban ?r = Inr ()"
    by (simp add: doCheckValidForSoroban_def exampleResources_def)
  have a1: "isArchived (sha256 ?X) exampleLtx exampleHotArchive (ContractCodeKey 1)"
    by (simp add: isArchived_def example_defs store_defs)
  have a2: "isArchived (sha256 ?X) exampleLtx exampleHotArchive (ContractDataKey 2 3 PERSISTENT)"
    by (simp add: isArchived_def example_defs store_defs)
  have s: "sha256 ?X = exampleSha" by (simp add: exampleExternal_def)
  have lu: "ledgerSeq exampleLtx + minPersistentTTL exampleConfig - 1 = 115"
    by (simp add: exampleLtx_def exampleConfig_def)
  have m: "ContractCodeKey 1 \<in> set (footprintReadWrite ?r)"
          "ContractDataKey 2 3 PERSISTENT \<in> set (footprintReadWrite ?r)"
    by (simp_all add: exampleResources_def)
  have "ttlLiveUntil exampleSha (rsLtx st) (ContractCodeKey 1) = Some 115"
    using restored_ttl_is_minimum_persistent_ttl
            [where resources = ?r and X = ?X and sorobanConfig = exampleConfig
               and hotArchive = exampleHotArchive and ltx = exampleLtx and ok = True
               and code = RESTORE_FOOTPRINT_SUCCESS and st = st and lk = "ContractCodeKey 1"]
          v d a1 m s lu by simp
  moreover have "ttlLiveUntil exampleSha (rsLtx st) (ContractDataKey 2 3 PERSISTENT) = Some 115"
    using restored_ttl_is_minimum_persistent_ttl
            [where resources = ?r and X = ?X and sorobanConfig = exampleConfig
               and hotArchive = exampleHotArchive and ltx = exampleLtx and ok = True
               and code = RESTORE_FOOTPRINT_SUCCESS and st = st
               and lk = "ContractDataKey 2 3 PERSISTENT"]
          v d a2 m s lu by simp
  ultimately show "\<exists>st. doApply ?X True ?r exampleConfig exampleHotArchive exampleLtx
         = Inr (True, RESTORE_FOOTPRINT_SUCCESS, st) \<and>
        ttlLiveUntil exampleSha (rsLtx st) (ContractCodeKey 1) = Some 115 \<and>
        ttlLiveUntil exampleSha (rsLtx st) (ContractDataKey 2 3 PERSISTENT) = Some 115"
    using d by blast
next
  let ?X = "exampleExternal None"
  let ?k = "ContractDataKey 2 3 PERSISTENT"
  let ?h = "exampleHelper [] [?k] [True]"
  obtain h' where a: "addReads ?X ?h [?k] False = Inr (True, h')"
    using example_autorestore_succeeds by blast
  have ar: "isArchived (sha256 ?X) (mLtx ?h) (mHotArchive ?h) ?k"
    by (simp add: isArchived_def example_defs store_defs)
  have s: "sha256 ?X = exampleSha" by (simp add: exampleExternal_def)
  have lu: "ledgerSeq (mLtx ?h) + minPersistentTTL (mSorobanConfig ?h) - 1 = 115"
    by (simp add: example_defs)
  have "ttlLiveUntil exampleSha (mLtx h') ?k = Some 115"
    using restored_ttl_is_minimum_persistent_ttl
            [where X = ?X and helper = ?h and keys = "[?k]" and isReadOnly = False
               and helper' = h' and lk' = ?k and ok' = True]
          a ar s lu by simp
  with a show "\<exists>h'. addReads ?X ?h [?k] False = Inr (True, h') \<and>
        ttlLiveUntil exampleSha (mLtx h') ?k = Some 115" by blast
qed

theorem restore_of_live_key_witness:
  "allPersistent [ContractDataKey 2 3 PERSISTENT] \<and>
   loadWithoutRecord exampleLtx (getTTLKey exampleSha (ContractDataKey 2 4 PERSISTENT))
     = Some liveDataTTL \<and>
   isLive liveDataTTL (ledgerSeq exampleLtx) \<and>
   doApply (exampleExternal None) True
     (exampleResources []
        [ContractDataKey 2 3 PERSISTENT, ContractDataKey 2 4 PERSISTENT, ContractCodeKey 1])
     exampleConfig exampleHotArchive exampleLtx =
   doApply (exampleExternal None) True
     (exampleResources [] [ContractDataKey 2 3 PERSISTENT, ContractCodeKey 1])
     exampleConfig exampleHotArchive exampleLtx"
proof -
  have p: "allPersistent [ContractDataKey 2 3 PERSISTENT]" by simp
  have s: "sha256 (exampleExternal None) = exampleSha" by (simp add: exampleExternal_def)
  have l: "loadWithoutRecord exampleLtx
             (getTTLKey (sha256 (exampleExternal None)) (ContractDataKey 2 4 PERSISTENT))
           = Some liveDataTTL"
    by (simp add: example_defs store_defs)
  have v: "isLive liveDataTTL (ledgerSeq exampleLtx)"
    by (simp add: example_defs store_defs)
  have r: "\<And>ks. (exampleResources [] [])\<lparr>footprintReadWrite := ks\<rparr> = exampleResources [] ks"
    by (simp add: exampleResources_def)
  show ?thesis
    using restore_of_live_key_is_noop
            [OF p l v, where tracker = True and resources = "exampleResources [] []"
               and post = "[ContractCodeKey 1]" and sorobanConfig = exampleConfig
               and hotArchive = exampleHotArchive]
          p l v s r by simp
qed

section \<open>Properties of InvariantManagerImpl\<close>

lemma enableLoop_none_enabled:
  "distinct (map snd invs) \<Longrightarrow>
   \<forall>(n, p) \<in> set invs. m n \<longrightarrow> p \<notin> set enabled \<Longrightarrow>
   enableLoop m invs enabled b =
     Inr (b \<or> (\<exists>(n, p) \<in> set invs. m n), enabled @ map snd (filter (\<lambda>(n, p). m n) invs))"
proof (induction invs arbitrary: enabled b)
  case Nil
  then show ?case by simp
next
  case (Cons np rest)
  obtain n p where np: "np = (n, p)" by (cases np)
  show ?case
  proof (cases "m n")
    case False
    with Cons np show ?thesis by auto
  next
    case True
    with Cons.prems np have fresh: "p \<notin> set enabled" by auto
    have d: "distinct (map snd rest)" and notin: "p \<notin> snd ` set rest"
      using Cons.prems(1) np by auto
    have "\<forall>(n', p') \<in> set rest. m n' \<longrightarrow> p' \<notin> set (enabled @ [p])"
      using Cons.prems(2) notin by (auto simp: rev_image_eqI)
    from Cons.IH[OF d this, of True] True fresh np show ?thesis by auto
  qed
qed

lemma enableLoop_some_enabled:
  "\<exists>(n, p) \<in> set invs. m n \<and> p \<in> set enabled \<Longrightarrow>
   \<exists>n en. enableLoop m invs enabled b = Inl (n, en) \<and> m n \<and> n \<in> fst ` set invs"
proof (induction invs arbitrary: enabled b)
  case Nil
  then show ?case by simp
next
  case (Cons np rest)
  obtain n p where np: "np = (n, p)" by (cases np)
  show ?case
  proof (cases "m n \<and> p \<in> set enabled")
    case True
    with np show ?thesis by auto
  next
    case False
    with Cons.prems np have r: "\<exists>(n, p) \<in> set rest. m n \<and> p \<in> set enabled" by auto
    then have r': "\<exists>(n, p') \<in> set rest. m n \<and> p' \<in> set (enabled @ [p])" by auto
    show ?thesis
    proof (cases "m n")
      case True
      with False have "p \<notin> set enabled" by simp
      with True np Cons.IH[OF r', of True] show ?thesis by auto
    next
      case False
      with np Cons.IH[OF r, of b] show ?thesis by auto
    qed
  qed
qed

text \<open>
  C9. \<open>enableInvariant\<close> compiles the pattern as an ECMAScript expression that ignores case
  and matches it against the names of the registered invariants. It throws
  \<open>std::invalid_argument\<close> for an empty pattern and for a pattern that does not compile, and
  \<open>std::runtime_error\<close> when a matched invariant is already enabled and when no registered
  invariant matches. Otherwise it appends the matched invariants to the enabled ones. Each
  registered name has an invariant object of its own.
\<close>

theorem enable_invariant_by_pattern:
  assumes "distinct (map snd (mInvariants mgr))"
  shows
   "(invPattern = [] \<longrightarrow>
       enableInvariant compile regex_match mgr invPattern = (Some PatternEmpty, mgr)) \<and>
    (invPattern \<noteq> [] \<and> compile invPattern {ECMAScript, icase} = None \<longrightarrow>
       enableInvariant compile regex_match mgr invPattern
         = (Some (InvalidPattern invPattern), mgr)) \<and>
    (invPattern \<noteq> [] \<and> compile invPattern {ECMAScript, icase} = Some r \<longrightarrow>
       ((\<exists>(name, invariant) \<in> set (mInvariants mgr).
            regex_match name r {match_not_null} \<and> invariant \<in> set (mEnabled mgr)) \<longrightarrow>
          (\<exists>name. fst (enableInvariant compile regex_match mgr invPattern)
                    = Some (AlreadyEnabled name) \<and>
                  regex_match name r {match_not_null} \<and> name \<in> fst ` set (mInvariants mgr))) \<and>
       ((\<forall>(name, invariant) \<in> set (mInvariants mgr). \<not> regex_match name r {match_not_null}) \<longrightarrow>
          enableInvariant compile regex_match mgr invPattern
            = (Some (NoMatch invPattern (map fst (mInvariants mgr))), mgr)) \<and>
       ((\<exists>(name, invariant) \<in> set (mInvariants mgr). regex_match name r {match_not_null}) \<and>
        (\<forall>(name, invariant) \<in> set (mInvariants mgr).
            regex_match name r {match_not_null} \<longrightarrow> invariant \<notin> set (mEnabled mgr)) \<longrightarrow>
          enableInvariant compile regex_match mgr invPattern
            = (None,
               mgr\<lparr>mEnabled := mEnabled mgr @
                      map snd (filter (\<lambda>(name, invariant). regex_match name r {match_not_null})
                                 (mInvariants mgr))\<rparr>)))"
proof (intro conjI impI)
  show "invPattern = [] \<Longrightarrow>
          enableInvariant compile regex_match mgr invPattern = (Some PatternEmpty, mgr)"
    by (simp add: enableInvariant_def)
next
  show "invPattern \<noteq> [] \<and> compile invPattern {ECMAScript, icase} = None \<Longrightarrow>
          enableInvariant compile regex_match mgr invPattern
            = (Some (InvalidPattern invPattern), mgr)"
    by (simp add: enableInvariant_def)
next
  assume c: "invPattern \<noteq> [] \<and> compile invPattern {ECMAScript, icase} = Some r"
     and e: "\<exists>(name, invariant) \<in> set (mInvariants mgr).
               regex_match name r {match_not_null} \<and> invariant \<in> set (mEnabled mgr)"
  from enableLoop_some_enabled[of "mInvariants mgr" "\<lambda>name. regex_match name r {match_not_null}"
         "mEnabled mgr" False, OF e]
  obtain n en where
    "enableLoop (\<lambda>name. regex_match name r {match_not_null}) (mInvariants mgr) (mEnabled mgr) False
       = Inl (n, en)"
    "regex_match n r {match_not_null}" "n \<in> fst ` set (mInvariants mgr)" by blast
  with c show "\<exists>name. fst (enableInvariant compile regex_match mgr invPattern)
                    = Some (AlreadyEnabled name) \<and>
                  regex_match name r {match_not_null} \<and> name \<in> fst ` set (mInvariants mgr)"
    by (auto simp: enableInvariant_def)
next
  assume c: "invPattern \<noteq> [] \<and> compile invPattern {ECMAScript, icase} = Some r"
     and n: "\<forall>(name, invariant) \<in> set (mInvariants mgr). \<not> regex_match name r {match_not_null}"
  then have f: "filter (\<lambda>(name, invariant). regex_match name r {match_not_null}) (mInvariants mgr) = []"
    by (auto simp: filter_empty_conv)
  have "enableLoop (\<lambda>name. regex_match name r {match_not_null}) (mInvariants mgr) (mEnabled mgr) False
          = Inr (False, mEnabled mgr)"
  proof -
    have pre: "\<forall>(n, p) \<in> set (mInvariants mgr).
                 regex_match n r {match_not_null} \<longrightarrow> p \<notin> set (mEnabled mgr)"
      using n by auto
    have no: "\<not> (\<exists>(n, p) \<in> set (mInvariants mgr). regex_match n r {match_not_null})"
      using n by auto
    show ?thesis
      using enableLoop_none_enabled[OF assms pre, of False] f no by simp
  qed
  with c show "enableInvariant compile regex_match mgr invPattern
            = (Some (NoMatch invPattern (map fst (mInvariants mgr))), mgr)"
    by (simp add: enableInvariant_def)
next
  assume c: "invPattern \<noteq> [] \<and> compile invPattern {ECMAScript, icase} = Some r"
     and m: "(\<exists>(name, invariant) \<in> set (mInvariants mgr). regex_match name r {match_not_null}) \<and>
        (\<forall>(name, invariant) \<in> set (mInvariants mgr).
            regex_match name r {match_not_null} \<longrightarrow> invariant \<notin> set (mEnabled mgr))"
  have "enableLoop (\<lambda>name. regex_match name r {match_not_null}) (mInvariants mgr) (mEnabled mgr) False
          = Inr (True, mEnabled mgr @
                   map snd (filter (\<lambda>(name, invariant). regex_match name r {match_not_null})
                              (mInvariants mgr)))"
  proof -
    have pre: "\<forall>(n, p) \<in> set (mInvariants mgr).
                 regex_match n r {match_not_null} \<longrightarrow> p \<notin> set (mEnabled mgr)"
      using m by auto
    have some: "\<exists>(n, p) \<in> set (mInvariants mgr). regex_match n r {match_not_null}"
      using m by auto
    show ?thesis
      using enableLoop_none_enabled[OF assms pre, of False] some by simp
  qed
  with c show "enableInvariant compile regex_match mgr invPattern
            = (None,
               mgr\<lparr>mEnabled := mEnabled mgr @
                      map snd (filter (\<lambda>(name, invariant). regex_match name r {match_not_null})
                                 (mInvariants mgr))\<rparr>)"
    by (simp add: enableInvariant_def)
qed

theorem enable_invariant_by_pattern_witness:
  "distinct (map snd (mInvariants exampleManager)) \<and>
   enableInvariant exampleCompile exampleMatch exampleManager [] = (Some PatternEmpty, exampleManager) \<and>
   enableInvariant exampleCompile exampleMatch exampleManager ''(''
     = (Some (InvalidPattern ''(''), exampleManager) \<and>
   (\<exists>name. fst (enableInvariant exampleCompile exampleMatch exampleManager ''.*'')
             = Some (AlreadyEnabled name)) \<and>
   enableInvariant exampleCompile exampleMatch exampleManager ''Nothing''
     = (Some (NoMatch ''Nothing'' [''ArchivedStateConsistency'', ''ConservationOfLumens'']),
        exampleManager) \<and>
   enableInvariant exampleCompile exampleMatch exampleManager ''ArchivedStateConsistency''
     = (None, exampleManager\<lparr>mEnabled := [2, 1]\<rparr>)"
proof -
  have d: "distinct (map snd (mInvariants exampleManager))"
    by (simp add: exampleManager_def)
  note t = enable_invariant_by_pattern [OF d, where compile = exampleCompile
              and regex_match = exampleMatch]
  have 1: "enableInvariant exampleCompile exampleMatch exampleManager []
             = (Some PatternEmpty, exampleManager)"
    using t [of "[]"] by simp
  have 2: "enableInvariant exampleCompile exampleMatch exampleManager ''(''
             = (Some (InvalidPattern ''(''), exampleManager)"
    using t [of "''(''"] by (simp add: exampleCompile_def)
  have 3: "\<exists>name. fst (enableInvariant exampleCompile exampleMatch exampleManager ''.*'')
             = Some (AlreadyEnabled name)"
    using t [of "''.*''" "''.*''"]
    by (auto simp: exampleCompile_def exampleMatch_def exampleManager_def)
  have 4: "enableInvariant exampleCompile exampleMatch exampleManager ''Nothing''
     = (Some (NoMatch ''Nothing'' [''ArchivedStateConsistency'', ''ConservationOfLumens'']),
        exampleManager)"
    using t [of "''Nothing''" "''Nothing''"]
    by (simp add: exampleCompile_def exampleMatch_def exampleManager_def)
  have 5: "enableInvariant exampleCompile exampleMatch exampleManager ''ArchivedStateConsistency''
     = (None, exampleManager\<lparr>mEnabled := [2, 1]\<rparr>)"
    using t [of "''ArchivedStateConsistency''" "''ArchivedStateConsistency''"]
    by (simp add: exampleCompile_def exampleMatch_def exampleManager_def)
  from d 1 2 3 4 5 show ?thesis by blast
qed

end
